theory Spec2Isabelle
  imports Main "HOL-Library.Log_Nat"
begin

section \<open>Python values used by \<open>main.py\<close>\<close>

text \<open>
  Strings are \<open>char list\<close>; a \<open>char\<close> stands for one code point below 256. Integers are
  Python's unbounded \<open>int\<close>. A method of the source is a function from the object's
  state to the new state paired with an \<open>outcome\<close>: either it returned, or it raised,
  and then the state holds the assignments made before the \<open>raise\<close>.
\<close>

datatype py_error = ValueError | IndexError | RuntimeError

datatype outcome = Returned | Raised py_error

definition MAX_HISTORY :: nat where
  "MAX_HISTORY = 10"

definition startswith :: "string \<Rightarrow> string \<Rightarrow> bool" where
  \<comment> \<open>\<open>s.startswith(p)\<close>\<close>
  "startswith s p = (take (length p) s = p)"

definition slice :: "nat \<Rightarrow> nat \<Rightarrow> string \<Rightarrow> string" where
  \<comment> \<open>\<open>s[lo:hi]\<close> for literal bounds \<open>0 \<le> lo \<le> hi\<close>; a slice never raises\<close>
  "slice lo hi s = take (hi - lo) (drop lo s)"

subsection \<open>\<open>int(s, 16)\<close>\<close>

definition hex_digit :: "char \<Rightarrow> nat option" where
  "hex_digit c =
     (let n = (of_char c :: nat)
      in if 48 \<le> n \<and> n \<le> 57 then Some (n - 48)
         else if 97 \<le> n \<and> n \<le> 102 then Some (n - 87)
         else if 65 \<le> n \<and> n \<le> 70 then Some (n - 55)
         else None)"

definition py_isspace :: "char \<Rightarrow> bool" where
  \<comment> \<open>the characters \<open>int()\<close> skips at both ends: tab to carriage return, space,
      and of the code points 128 to 255 the two spaces U+0085 and U+00A0\<close>
  "py_isspace c =
     (let n = (of_char c :: nat)
      in if 9 \<le> n \<and> n \<le> 13 then True else n = 32 \<or> n = 133 \<or> n = 160)"

fun hex_digits :: "nat \<Rightarrow> bool \<Rightarrow> string \<Rightarrow> nat option" where
  \<comment> \<open>digits with single underscores between them; the flag says that the previous
      character was an underscore\<close>
  "hex_digits acc prev_us [] = (if prev_us then None else Some acc)"
| "hex_digits acc prev_us (c # cs) =
     (if c = CHR ''_'' then (if prev_us then None else hex_digits acc True cs)
      else case hex_digit c of
             None \<Rightarrow> None
           | Some d \<Rightarrow> hex_digits (16 * acc + d) False cs)"

definition py_int16 :: "string \<Rightarrow> int option" where
  \<comment> \<open>\<open>int(s, 16)\<close>; \<open>None\<close> is the \<open>ValueError\<close>. Surrounding whitespace, one sign and one
      \<open>0x\<close> prefix (with one underscore after it) are accepted, as CPython does.\<close>
  "py_int16 s =
     (let t = dropWhile py_isspace s;
          neg = (case t of [] \<Rightarrow> False | c # r \<Rightarrow> c = CHR ''-'');
          u = (case t of [] \<Rightarrow> t
               | c # r \<Rightarrow> if c = CHR ''+'' then r else if c = CHR ''-'' then r else t);
          v = (case u of
                 a # b # r \<Rightarrow>
                   if a = CHR ''0'' \<and> (b = CHR ''x'' \<or> b = CHR ''X'')
                   then (case r of [] \<Rightarrow> r | c # r' \<Rightarrow> if c = CHR ''_'' then r' else r)
                   else u
               | _ \<Rightarrow> u);
          d = rev (dropWhile py_isspace (rev v))
      in case d of
           [] \<Rightarrow> None
         | c # r \<Rightarrow>
             if c = CHR ''_'' then None
             else map_option (\<lambda>n. if neg then - int n else int n) (hex_digits 0 False d))"

subsection \<open>Formatting integers\<close>

definition hex_char :: "nat \<Rightarrow> char" where
  \<comment> \<open>the digit of a value below 16\<close>
  "hex_char n = ''0123456789abcdef'' ! n"

fun hex_str :: "nat \<Rightarrow> string" where
  "hex_str n = (if n < 16 then [hex_char n] else hex_str (n div 16) @ [hex_char (n mod 16)])"

definition format_02x :: "int \<Rightarrow> string" where
  \<comment> \<open>\<open>f"{n:02x}"\<close>: lower-case hexadecimal, zero-filled to two characters, the sign
      counted in the width\<close>
  "format_02x n =
     (if n < 0 then CHR ''-'' # hex_str (nat (- n))
      else let d = hex_str (nat n) in replicate (2 - length d) CHR ''0'' @ d)"

definition dec_char :: "nat \<Rightarrow> char" where
  \<comment> \<open>the digit of a value below 10\<close>
  "dec_char n = ''0123456789'' ! n"

fun dec_str :: "nat \<Rightarrow> string" where
  "dec_str n = (if n < 10 then [dec_char n] else dec_str (n div 10) @ [dec_char (n mod 10)])"

definition format_int :: "int \<Rightarrow> string" where
  \<comment> \<open>\<open>f"{n}"\<close>\<close>
  "format_int n = (if n < 0 then CHR ''-'' # dec_str (nat (- n)) else dec_str (nat n))"

subsection \<open>Floats\<close>

text \<open>
  A Python \<open>float\<close> is an IEEE 754 binary64 number. The finite ones are rationals, and
  every operation returns the exact result rounded to 53 significant bits, ties to the
  even significand. All floats of \<open>_update_color_cache\<close> are zero or of magnitude between
  \<open>1/16\<close> and \<open>256\<close>, far from overflow and from the subnormal range, so that no infinity,
  NaN or gradual underflow has to be modelled.
\<close>

type_synonym float = rat

definition round_even :: "rat \<Rightarrow> int" where
  "round_even q =
     (let f = \<lfloor>q\<rfloor>; d = q - of_int f
      in if d < 1 / 2 then f else if 1 / 2 < d then f + 1 else if even f then f else f + 1)"

definition pow2 :: "int \<Rightarrow> rat" where
  "pow2 e = (if 0 \<le> e then 2 ^ nat e else 1 / 2 ^ nat (- e))"

definition binade :: "rat \<Rightarrow> int" where
  \<comment> \<open>the exponent \<open>e\<close> with \<open>2^e \<le> a < 2^(e+1)\<close>, for \<open>a > 0\<close>\<close>
  "binade a =
     (let (n, d) = quotient_of a; k = bitlen n - bitlen d
      in if pow2 k \<le> a then k else k - 1)"

definition round_double :: "rat \<Rightarrow> float" where
  "round_double x =
     (if x = 0 then 0
      else let a = \<bar>x\<bar>; u = pow2 (binade a - 52); r = of_int (round_even (a / u)) * u
           in if 0 < x then r else - r)"

definition float_of_int :: "int \<Rightarrow> float" where
  "float_of_int n = round_double (of_int n)"

definition fsub :: "float \<Rightarrow> float \<Rightarrow> float" where
  "fsub a b = round_double (a - b)"

definition fmul :: "float \<Rightarrow> float \<Rightarrow> float" where
  "fmul a b = round_double (a * b)"

definition fdiv :: "float \<Rightarrow> float \<Rightarrow> float" where
  \<comment> \<open>only used with the divisor 15.0\<close>
  "fdiv a b = round_double (a / b)"

definition py_max :: "float \<Rightarrow> float \<Rightarrow> float" where
  \<comment> \<open>\<open>max(a, b)\<close> keeps the first argument unless the second is greater\<close>
  "py_max a b = (if a < b then b else a)"

definition int_of_float :: "float \<Rightarrow> int" where
  \<comment> \<open>\<open>int(x)\<close> truncates towards zero\<close>
  "int_of_float x = (if 0 \<le> x then \<lfloor>x\<rfloor> else \<lceil>x\<rceil>)"

section \<open>\<open>CaptionWindow\<close>\<close>

record display_settings =
  font_family :: string
  font_size :: int
  text_color :: string
  position :: string
  fullscreen :: bool

text \<open>
  A \<open>tk.Label\<close> as far as the source configures it. An option left at \<open>None\<close> was never
  passed to \<open>config\<close>. Whether Tk accepts a colour or a font name is outside the model:
  the model records the commands sent to the toolkit.
\<close>

record label =
  lbl_text :: string
  lbl_font :: "(string \<times> int) option"
  lbl_fg :: "string option"
  lbl_wraplength :: "int option"

record caption_window =
  settings :: display_settings
  history :: "string list"
  color_cache :: "string list"
  history_labels :: "label list"
  partial_label :: label
  root_geometry :: string
  root_fullscreen :: bool

text \<open>What the window reads from the toolkit: the screen size and \<open>winfo_width()\<close>.\<close>

record screen =
  winfo_screenwidth :: int
  winfo_screenheight :: int
  winfo_width :: int

subsection \<open>\<open>_process_text_update\<close>\<close>

definition push_history :: "string \<Rightarrow> string list \<Rightarrow> string list" where
  \<comment> \<open>\<open>history.insert(0, text)\<close>, then \<open>history.pop()\<close> if the list got longer than
      \<open>MAX_HISTORY\<close>\<close>
  "push_history txt h =
     (let h' = txt # h in if length h' > MAX_HISTORY then butlast h' else h')"

definition show_history :: "string list \<Rightarrow> label list \<Rightarrow> label list" where
  \<comment> \<open>the loop over \<open>enumerate(self.history_labels)\<close>\<close>
  "show_history h ls =
     map (\<lambda>(i, l). l\<lparr>lbl_text := (if i < length h then h ! i else [])\<rparr>) (enumerate 0 ls)"

definition process_text_update :: "caption_window \<Rightarrow> string \<Rightarrow> bool \<Rightarrow> caption_window" where
  "process_text_update w txt is_final =
     (if is_final
      then let h = push_history txt (history w)
           in w\<lparr>history := h,
                history_labels := show_history h (history_labels w),
                partial_label := (partial_label w)\<lparr>lbl_text := []\<rparr>\<rparr>
      else w\<lparr>partial_label := (partial_label w)\<lparr>lbl_text := txt\<rparr>\<rparr>)"

text \<open>
  \<open>on_text_update\<close> schedules one call of \<open>_process_text_update\<close> per event on the Tk event
  loop, which runs them in the order they were scheduled. An event is the pair
  \<open>(text, is_final)\<close>.
\<close>

fun process_events :: "caption_window \<Rightarrow> (string \<times> bool) list \<Rightarrow> caption_window" where
  "process_events w [] = w"
| "process_events w ((txt, is_final) # evs) = process_events (process_text_update w txt is_final) evs"

definition final_events :: "string list \<Rightarrow> (string \<times> bool) list" where
  "final_events txts = map (\<lambda>t. (t, True)) txts"

subsection \<open>\<open>_update_color_cache\<close>\<close>

definition fade_factor :: "nat \<Rightarrow> float" where
  \<comment> \<open>\<open>max(0.2, 1.0 - (i / (MAX_HISTORY * 1.5)))\<close>; the literals \<open>1.0\<close> and \<open>1.5\<close> are exact,
      \<open>0.2\<close> is the double nearest to \<open>1/5\<close>\<close>
  "fade_factor i =
     (let factor = fsub 1 (fdiv (float_of_int (int i)) (fmul (float_of_int (int MAX_HISTORY)) (3 / 2)))
      in py_max (round_double (1 / 5)) factor)"

definition fade_component :: "int \<Rightarrow> nat \<Rightarrow> int" where
  \<comment> \<open>\<open>int(r * factor)\<close>\<close>
  "fade_component r i = int_of_float (fmul (float_of_int r) (fade_factor i))"

definition fade_color :: "int \<Rightarrow> int \<Rightarrow> int \<Rightarrow> nat \<Rightarrow> string" where
  "fade_color r g b i =
     (let nr = fade_component r i; ng = fade_component g i; nb = fade_component b i
      in CHR ''#'' # format_02x nr @ format_02x ng @ format_02x nb)"

definition update_color_cache :: "caption_window \<Rightarrow> caption_window \<times> outcome" where
  "update_color_cache w0 =
     (let base_color = text_color (settings w0);
          w = w0\<lparr>color_cache := []\<rparr>
      in if \<not> startswith base_color ''#''
         then (w\<lparr>color_cache := replicate MAX_HISTORY base_color\<rparr>, Returned)
         else case py_int16 (slice 1 3 base_color) of
                None \<Rightarrow> (w, Raised ValueError)
              | Some r \<Rightarrow>
           (case py_int16 (slice 3 5 base_color) of
                None \<Rightarrow> (w, Raised ValueError)
              | Some g \<Rightarrow>
           (case py_int16 (slice 5 7 base_color) of
                None \<Rightarrow> (w, Raised ValueError)
              | Some b \<Rightarrow>
                  (w\<lparr>color_cache := map (fade_color r g b) [0..<MAX_HISTORY]\<rparr>, Returned))))"

subsection \<open>\<open>_apply_visual_settings\<close>\<close>

definition config_label :: "string \<times> int \<Rightarrow> string \<Rightarrow> int option \<Rightarrow> label \<Rightarrow> label" where
  \<comment> \<open>\<open>lbl.config(font=f, fg=c)\<close>, with \<open>wraplength=n\<close> when one is given\<close>
  "config_label f c wl l =
     (case wl of
        None \<Rightarrow> l\<lparr>lbl_font := Some f, lbl_fg := Some c\<rparr>
      | Some n \<Rightarrow> l\<lparr>lbl_font := Some f, lbl_fg := Some c, lbl_wraplength := Some n\<rparr>)"

fun config_history_labels ::
  "string \<times> int \<Rightarrow> int option \<Rightarrow> string list \<Rightarrow> label list \<Rightarrow> label list \<times> outcome" where
  \<comment> \<open>the loop \<open>for i, lbl in enumerate(self.history_labels)\<close> that reads \<open>self.color_cache[i]\<close>:
      labels and colours are walked together from index 0, and a label with no colour left
      is the \<open>IndexError\<close>, the labels before it already configured\<close>
  "config_history_labels f wl cs [] = ([], Returned)"
| "config_history_labels f wl [] (l # ls) = (l # ls, Raised IndexError)"
| "config_history_labels f wl (c # cs) (l # ls) =
     (let (ls', r) = config_history_labels f wl cs ls in (config_label f c wl l # ls', r))"

definition apply_visual_settings :: "screen \<Rightarrow> caption_window \<Rightarrow> caption_window \<times> outcome" where
  "apply_visual_settings scr w0 =
     (let s = settings w0;
          font_spec = (font_family s, font_size s);
          color = text_color s;
          w1 = w0\<lparr>partial_label := config_label font_spec color None (partial_label w0)\<rparr>;
          (ls1, r1) = config_history_labels font_spec None (color_cache w1) (history_labels w1);
          w2 = w1\<lparr>history_labels := ls1\<rparr>
      in case r1 of
           Raised e \<Rightarrow> (w2, Raised e)
         | Returned \<Rightarrow>
             let is_fs = fullscreen s;
                 w3 = w2\<lparr>root_fullscreen := is_fs\<rparr>;
                 screen_width = winfo_screenwidth scr;
                 (w4, window_width) =
                   (if \<not> is_fs
                    then let pos = position s; sh = winfo_screenheight scr
                         in if pos = ''top''
                            then (w3\<lparr>root_geometry := format_int screen_width @ ''x250+0+0''\<rparr>,
                                  screen_width)
                            else if pos = ''bottom''
                            then let taskbar_offset = 40
                                 in (w3\<lparr>root_geometry :=
                                          format_int screen_width @ ''x250+0+''
                                            @ format_int (sh - 250 - taskbar_offset)\<rparr>,
                                     screen_width)
                            else let window_width = winfo_width scr
                                 in (w3, if window_width \<le> 1 then 800 else window_width)
                    else (w3, screen_width));
                 wrap_len = window_width - 50;
                 w5 = w4\<lparr>partial_label :=
                          config_label font_spec color (Some wrap_len) (partial_label w4)\<rparr>;
                 (ls2, r2) = config_history_labels font_spec (Some wrap_len)
                               (color_cache w5) (history_labels w5)
             in (w5\<lparr>history_labels := ls2\<rparr>, r2))"

definition wrap_length :: "caption_window \<Rightarrow> int option" where
  \<comment> \<open>the \<open>wraplength\<close> last sent to the partial label\<close>
  "wrap_length w = lbl_wraplength (partial_label w)"

subsection \<open>\<open>on_settings_changed\<close> and \<open>__init__\<close>\<close>

definition on_settings_changed ::
  "screen \<Rightarrow> display_settings \<Rightarrow> caption_window \<Rightarrow> caption_window \<times> outcome" where
  "on_settings_changed scr new_settings w0 =
     (let w = w0\<lparr>settings := new_settings\<rparr>;
          (w1, r1) = update_color_cache w
      in case r1 of
           Raised e \<Rightarrow> (w1, Raised e)
         | Returned \<Rightarrow> apply_visual_settings scr w1)"

definition default_settings :: display_settings where
  "default_settings =
     \<lparr>font_family = ''Helvetica'', font_size = 24, text_color = ''#FFFFFF'',
      position = ''floating'', fullscreen = False\<rparr>"

definition new_label :: label where
  \<comment> \<open>\<open>tk.Label(..., text="")\<close>\<close>
  "new_label = \<lparr>lbl_text = [], lbl_font = None, lbl_fg = None, lbl_wraplength = None\<rparr>"

definition blank_window :: caption_window where
  \<comment> \<open>the fields as \<open>__init__\<close> and \<open>_init_ui\<close> assign them, before the first
      \<open>_update_color_cache\<close>\<close>
  "blank_window =
     \<lparr>settings = default_settings,
      history = replicate MAX_HISTORY [],
      color_cache = [],
      history_labels = replicate MAX_HISTORY new_label,
      partial_label = new_label,
      root_geometry = ''800x200'',
      root_fullscreen = False\<rparr>"

definition construct_window :: "screen \<Rightarrow> caption_window \<times> outcome" where
  "construct_window scr =
     (let (w1, r1) = update_color_cache blank_window
      in case r1 of
           Raised e \<Rightarrow> (w1, Raised e)
         | Returned \<Rightarrow> apply_visual_settings scr w1)"

definition initial_window :: "screen \<Rightarrow> caption_window" where
  "initial_window scr = fst (construct_window scr)"

section \<open>\<open>AudioTranscriber\<close>: \<open>start\<close> and \<open>stop\<close>\<close>

text \<open>
  Of a \<open>threading.Thread\<close> the model keeps whether \<open>start()\<close> succeeded on it.
  \<open>Thread.start()\<close> raises \<open>RuntimeError\<close> when the system cannot start a new thread, and
  the object then stays assigned and unstarted. \<open>Thread.join\<close> raises \<open>RuntimeError\<close> on a
  thread that was not started and on the calling thread itself; otherwise it returns, at
  the latest when the timeout has passed. A call \<open>join(timeout=t)\<close> is recorded with its
  timeout; how long it blocks is outside the model.
\<close>

record py_thread =
  daemon :: bool
  started :: bool

record audio_transcriber =
  running :: bool
  thread :: "py_thread option"

definition new_transcriber :: audio_transcriber where
  \<comment> \<open>the fields as \<open>__init__\<close> assigns them\<close>
  "new_transcriber = \<lparr>running = False, thread = None\<rparr>"

definition start :: "bool \<Rightarrow> audio_transcriber \<Rightarrow> audio_transcriber \<times> outcome" where
  \<comment> \<open>the flag says whether the system can start a new thread\<close>
  "start can_spawn t =
     (if running t then (t, Returned)
      else let t1 = t\<lparr>running := True\<rparr>;
               t2 = t1\<lparr>thread := Some \<lparr>daemon = True, started = False\<rparr>\<rparr>
           in if can_spawn
              then (t2\<lparr>thread := Some \<lparr>daemon = True, started = True\<rparr>\<rparr>, Returned)
              else (t2, Raised RuntimeError))"

definition thread_join :: "bool \<Rightarrow> py_thread \<Rightarrow> outcome" where
  \<comment> \<open>\<open>th.join(timeout=...)\<close>; the flag says whether the caller is the thread \<open>th\<close> itself\<close>
  "thread_join is_current th =
     (if \<not> started th then Raised RuntimeError
      else if is_current then Raised RuntimeError
      else Returned)"

definition stop :: "bool \<Rightarrow> audio_transcriber \<Rightarrow> audio_transcriber \<times> rat list \<times> outcome" where
  \<comment> \<open>the flag says whether \<open>stop()\<close> is called on the worker thread; the result is the
      new state, the timeouts of the \<open>join\<close> calls made, and the outcome\<close>
  "stop on_worker t =
     (let t1 = t\<lparr>running := False\<rparr>
      in case thread t1 of
           None \<Rightarrow> (t1, [], Returned)
         | Some th \<Rightarrow> (t1, [2], thread_join on_worker th))"

section \<open>Notions used in the statements\<close>

fun finals :: "(string \<times> bool) list \<Rightarrow> string list" where
  \<comment> \<open>the texts of the final events, in order of arrival\<close>
  "finals [] = []"
| "finals ((t, f) # evs) = (if f then t # finals evs else finals evs)"

definition last_finals_reversed :: "string list \<Rightarrow> string list" where
  \<comment> \<open>the last \<open>min(k, 10)\<close> of \<open>k\<close> texts, most recent first\<close>
  "last_finals_reversed txts =
     rev (drop (length txts - min (length txts) MAX_HISTORY) txts)"

text \<open>
  A Tk geometry string \<open>WxH+X+Y\<close> places a window of width \<open>W\<close> and height \<open>H\<close> with its
  top left corner at \<open>(X, Y)\<close>.
\<close>

record geometry =
  geo_x :: int
  geo_y :: int
  geo_width :: int
  geo_height :: int

definition tk_geometry :: "geometry \<Rightarrow> string" where
  "tk_geometry g =
     format_int (geo_width g) @ ''x'' @ format_int (geo_height g)
       @ ''+'' @ format_int (geo_x g) @ ''+'' @ format_int (geo_y g)"

definition is_hex_char :: "char \<Rightarrow> bool" where
  "is_hex_char c = (hex_digit c \<noteq> None)"

fun has_six_hex_digits :: "string \<Rightarrow> bool" where
  \<comment> \<open>\<open>#\<close> followed by at least six hexadecimal digits\<close>
  "has_six_hex_digits (h # a # b # c # d # e # f # rest) =
     (h = CHR ''#'' \<and> is_hex_char a \<and> is_hex_char b \<and> is_hex_char c
        \<and> is_hex_char d \<and> is_hex_char e \<and> is_hex_char f)"
| "has_six_hex_digits _ = False"

definition is_hex_triple :: "string \<Rightarrow> bool" where
  \<comment> \<open>an RGB hex triple \<open>#RRGGBB\<close>\<close>
  "is_hex_triple s = (has_six_hex_digits s \<and> length s = 7)"

definition hex_byte :: "char \<Rightarrow> char \<Rightarrow> int" where
  \<comment> \<open>the value of two hexadecimal digits\<close>
  "hex_byte a b =
     int (16 * (case hex_digit a of None \<Rightarrow> 0 | Some x \<Rightarrow> x)
            + (case hex_digit b of None \<Rightarrow> 0 | Some y \<Rightarrow> y))"

definition red :: "string \<Rightarrow> int" where
  "red s = hex_byte (s ! 1) (s ! 2)"

definition green :: "string \<Rightarrow> int" where
  "green s = hex_byte (s ! 3) (s ! 4)"

definition blue :: "string \<Rightarrow> int" where
  "blue s = hex_byte (s ! 5) (s ! 6)"

definition with_text_color :: "caption_window \<Rightarrow> string \<Rightarrow> caption_window" where
  \<comment> \<open>the window with \<open>settings["text_color"]\<close> replaced\<close>
  "with_text_color w c = w\<lparr>settings := (settings w)\<lparr>text_color := c\<rparr>\<rparr>"

section \<open>The caption history\<close>

lemma history_update_color_cache: "history (fst (update_color_cache w)) = history w"
  by (simp add: update_color_cache_def Let_def split: option.splits)

lemma history_apply_visual_settings: "history (fst (apply_visual_settings scr w)) = history w"
  by (simp add: apply_visual_settings_def Let_def split: prod.splits outcome.splits)

lemma history_initial_window: "history (initial_window scr) = replicate MAX_HISTORY []"
proof -
  obtain w1 r1 where u: "update_color_cache blank_window = (w1, r1)"
    by (cases "update_color_cache blank_window")
  have "history w1 = history blank_window"
    using history_update_color_cache [of blank_window] u by simp
  then have "history (fst (construct_window scr)) = history blank_window"
    using u by (cases r1) (simp_all add: construct_window_def history_apply_visual_settings)
  then show ?thesis
    by (simp add: initial_window_def blank_window_def)
qed

lemma history_process_text_update:
  "history (process_text_update w txt is_final) =
     (if is_final then push_history txt (history w) else history w)"
  by (simp add: process_text_update_def Let_def)

lemma history_process_events:
  "history (process_events w evs) = fold push_history (finals evs) (history w)"
  by (induction w evs rule: process_events.induct) (simp_all add: history_process_text_update)

lemma push_history_full:
  "length h = MAX_HISTORY \<Longrightarrow> push_history t h = take MAX_HISTORY (t # h)"
  by (simp add: push_history_def MAX_HISTORY_def butlast_conv_take)

lemma fold_push_history:
  "length h = MAX_HISTORY \<Longrightarrow> fold push_history ts h = take MAX_HISTORY (rev ts @ h)"
proof (induction ts arbitrary: h)
  case Nil
  then show ?case by simp
next
  case (Cons t ts)
  have len: "length (take MAX_HISTORY (t # h)) = MAX_HISTORY"
    using Cons.prems by (simp add: MAX_HISTORY_def)
  have "fold push_history (t # ts) h = fold push_history ts (take MAX_HISTORY (t # h))"
    using Cons.prems by (simp add: push_history_full)
  also have "\<dots> = take MAX_HISTORY (rev ts @ take MAX_HISTORY (t # h))"
    using Cons.IH [OF len] .
  also have "\<dots> = take MAX_HISTORY (rev ts @ t # h)"
    by simp
  finally show ?case by simp
qed

lemma finals_final_events: "finals (final_events txts) = txts"
  by (induction txts) (simp_all add: final_events_def)

lemma history_after_events:
  "history (process_events (initial_window scr) evs) =
     take MAX_HISTORY (rev (finals evs)) @ replicate (MAX_HISTORY - length (finals evs)) []"
  by (simp add: history_process_events history_initial_window fold_push_history)

lemma last_finals_reversed_take: "last_finals_reversed txts = take MAX_HISTORY (rev txts)"
proof -
  have "length txts - min (length txts) MAX_HISTORY = length txts - MAX_HISTORY"
    by (simp add: min_def)
  then show ?thesis
    by (simp add: last_finals_reversed_def take_rev)
qed

text \<open>
  Claim C1, as stated: after \<open>k\<close> final events from the initial state the history equals
  exactly the last \<open>min(k, 10)\<close> final texts, most recent first. It fails for every
  \<open>k < 10\<close>: the history starts as ten empty strings, so after the single final event
  \<open>"a"\<close> it is \<open>"a"\<close> followed by nine empty strings, not the one-element list.
\<close>

theorem C1_history_not_only_finals:
  "history (process_events
      (initial_window \<lparr>winfo_screenwidth = 1920, winfo_screenheight = 1080, winfo_width = 1\<rparr>)
      (final_events [''a'']))
   \<noteq> last_finals_reversed [''a'']"
  unfolding history_after_events finals_final_events last_finals_reversed_take
  by (simp add: MAX_HISTORY_def)

text \<open>
  Claim C1, amended: after \<open>k\<close> final events from the initial state the history is the
  last \<open>min(k, 10)\<close> final texts, most recent first, followed by \<open>10 - min(k, 10)\<close> empty
  strings; from \<open>k = 10\<close> on it is exactly the last ten texts, the older ones evicted
  oldest first.
\<close>

theorem C1_history_after_finals:
  "history (process_events (initial_window scr) (final_events txts)) =
     last_finals_reversed txts @ replicate (MAX_HISTORY - length txts) []"
  unfolding history_after_events finals_final_events last_finals_reversed_take
  by (rule refl)

text \<open>
  Claim C2: the twelve final events \<open>"cap0"\<close> to \<open>"cap11"\<close>, in this order, leave the
  history \<open>["cap11", "cap10", ..., "cap2"]\<close>: ten entries, \<open>"cap0"\<close> and \<open>"cap1"\<close> evicted.
\<close>

theorem C2_twelve_captions:
  "history (process_events (initial_window scr)
      (final_events [''cap0'', ''cap1'', ''cap2'', ''cap3'', ''cap4'', ''cap5'',
                     ''cap6'', ''cap7'', ''cap8'', ''cap9'', ''cap10'', ''cap11'']))
   = [''cap11'', ''cap10'', ''cap9'', ''cap8'', ''cap7'', ''cap6'', ''cap5'', ''cap4'',
      ''cap3'', ''cap2'']"
  unfolding history_after_events finals_final_events
  by (simp add: MAX_HISTORY_def)

section \<open>The labels that show the history\<close>

lemma config_history_labels_text:
  "map lbl_text (fst (config_history_labels f wl cs ls)) = map lbl_text ls"
  by (induction f wl cs ls rule: config_history_labels.induct)
     (simp_all add: config_label_def case_prod_unfold Let_def split: option.splits)

lemma labels_apply_visual_settings:
  "map lbl_text (history_labels (fst (apply_visual_settings scr w))) = map lbl_text (history_labels w)"
proof -
  have a: "map lbl_text ls1 = map lbl_text ls" if "config_history_labels f wl cs ls = (ls1, r)" for f wl cs ls ls1 r
    using config_history_labels_text [of f wl cs ls] that by simp
  show ?thesis
    by (auto simp add: apply_visual_settings_def Let_def a split: prod.splits outcome.splits dest!: a)
qed

lemma partial_apply_visual_settings:
  "lbl_text (partial_label (fst (apply_visual_settings scr w))) = lbl_text (partial_label w)"
  by (simp add: apply_visual_settings_def Let_def config_label_def split: prod.splits outcome.splits)

lemma labels_update_color_cache:
  "history_labels (fst (update_color_cache w)) = history_labels w"
  by (simp add: update_color_cache_def Let_def split: option.splits)

lemma labels_initial_window:
  "map lbl_text (history_labels (initial_window scr)) = replicate MAX_HISTORY []"
proof -
  obtain w1 r1 where u: "update_color_cache blank_window = (w1, r1)"
    by (cases "update_color_cache blank_window")
  have "history_labels w1 = history_labels blank_window"
    using labels_update_color_cache [of blank_window] u by simp
  then have "map lbl_text (history_labels (fst (construct_window scr)))
      = map lbl_text (history_labels blank_window)"
    using u by (cases r1) (simp_all add: construct_window_def labels_apply_visual_settings)
  then show ?thesis
    by (simp add: initial_window_def blank_window_def new_label_def)
qed

lemma show_history_text:
  "length ls = length h \<Longrightarrow> map lbl_text (show_history h ls) = h"
proof -
  assume len: "length ls = length h"
  have "map lbl_text (show_history h ls) =
      map ((\<lambda>i. if i < length h then h ! i else []) \<circ> fst) (enumerate 0 ls)"
    by (simp add: show_history_def case_prod_unfold comp_def)
  also have "\<dots> = map (\<lambda>i. if i < length h then h ! i else []) (map fst (enumerate 0 ls))"
    by (simp only: map_map)
  also have "\<dots> = map (\<lambda>i. if i < length h then h ! i else []) [0..<length h]"
    using len by simp
  also have "\<dots> = map ((!) h) [0..<length h]"
    by (rule map_cong) simp_all
  finally show ?thesis
    by (simp add: map_nth)
qed

lemma length_show_history: "length (show_history h ls) = length ls"
  by (simp add: show_history_def)

lemma labels_process_events:
  "length (history w) = MAX_HISTORY \<Longrightarrow> length (history_labels w) = MAX_HISTORY \<Longrightarrow>
   map lbl_text (history_labels w) = history w \<Longrightarrow>
   map lbl_text (history_labels (process_events w evs)) = history (process_events w evs)
   \<and> length (history (process_events w evs)) = MAX_HISTORY"
proof (induction w evs rule: process_events.induct)
  case (1 w)
  then show ?case by simp
next
  case (2 w t is_final evs)
  let ?w = "process_text_update w t is_final"
  have h: "length (history ?w) = MAX_HISTORY"
    using "2.prems"(1) by (simp add: history_process_text_update push_history_full MAX_HISTORY_def)
  have l: "length (history_labels ?w) = MAX_HISTORY"
    using "2.prems"(2) by (simp add: process_text_update_def Let_def length_show_history)
  have "map lbl_text (history_labels ?w) = history ?w"
  proof (cases is_final)
    case True
    have "length (history_labels w) = length (push_history t (history w))"
      using h "2.prems"(2) True by (simp add: history_process_text_update)
    then show ?thesis
      using True by (simp add: process_text_update_def Let_def show_history_text)
  next
    case False
    then show ?thesis using "2.prems"(3) by (simp add: process_text_update_def)
  qed
  then show ?case
    using "2.IH" [OF h l] by simp
qed

text \<open>
  Claim C6, as stated: the partial events \<open>"hel"\<close>, \<open>"hell"\<close>, \<open>"hello"\<close> followed by the
  final event \<open>"hello world"\<close> leave every history slot other than slot 0 unchanged. It
  fails in the state reached by one final event \<open>"a"\<close>: slot 1 is empty before the
  scenario and \<open>"a"\<close> after it, the older entries having moved down by one.
\<close>

theorem C6_other_slots_shift:
  "history (process_events
      (initial_window \<lparr>winfo_screenwidth = 1920, winfo_screenheight = 1080, winfo_width = 1\<rparr>)
      [(''a'', True)]) ! 1 = []
   \<and> history (process_events
        (process_events
          (initial_window \<lparr>winfo_screenwidth = 1920, winfo_screenheight = 1080, winfo_width = 1\<rparr>)
          [(''a'', True)])
        [(''hel'', False), (''hell'', False), (''hello'', False), (''hello world'', True)]) ! 1
       = ''a''"
proof -
  let ?w = "process_events
      (initial_window \<lparr>winfo_screenwidth = 1920, winfo_screenheight = 1080, winfo_width = 1\<rparr>)
      [(''a'', True)]"
  have a: "history ?w = ''a'' # replicate 9 []"
    unfolding history_after_events by (simp add: MAX_HISTORY_def)
  have len: "length (history ?w) = MAX_HISTORY"
    by (simp only: a) (simp add: MAX_HISTORY_def)
  have "history (process_events ?w
      [(''hel'', False), (''hell'', False), (''hello'', False), (''hello world'', True)])
      = push_history ''hello world'' (history ?w)"
    unfolding history_process_events by simp
  also have "\<dots> = take MAX_HISTORY (''hello world'' # history ?w)"
    by (rule push_history_full [OF len])
  also have "\<dots> = take MAX_HISTORY (''hello world'' # ''a'' # replicate 9 [])"
    by (simp only: a)
  finally have b: "history (process_events ?w
      [(''hel'', False), (''hell'', False), (''hello'', False), (''hello world'', True)])
      = take MAX_HISTORY (''hello world'' # ''a'' # replicate 9 [])" .
  show ?thesis
    by (simp only: a b) (simp add: MAX_HISTORY_def)
qed

text \<open>
  Claim C6, amended: the partial events \<open>"hel"\<close>, \<open>"hell"\<close>, \<open>"hello"\<close> followed by the final
  event \<open>"hello world"\<close> leave, from any state, the partial slot empty and slot 0 of the
  history equal to \<open>"hello world"\<close>; the other slots hold the previous entries moved down
  by one, the last one dropped (on a history of ten entries the result is
  \<open>"hello world"\<close> followed by the previous history without its last entry). Run from the
  initial state, where every slot is empty, every other slot of the history, and of the
  labels that show it, is as it was. In any state, a partial event sets the text of the
  partial label and changes neither the history nor the history labels.
\<close>

theorem C6_partials_then_final:
  "lbl_text (partial_label (process_events v
        [(''hel'', False), (''hell'', False), (''hello'', False), (''hello world'', True)])) = []
   \<and> hd (history (process_events v
        [(''hel'', False), (''hell'', False), (''hello'', False), (''hello world'', True)]))
       = ''hello world''
   \<and> (length (history v) = MAX_HISTORY \<longrightarrow>
        history (process_events v
          [(''hel'', False), (''hell'', False), (''hello'', False), (''hello world'', True)])
         = ''hello world'' # butlast (history v))
   \<and> history (process_events (initial_window scr)
        [(''hel'', False), (''hell'', False), (''hello'', False), (''hello world'', True)])
       = ''hello world'' # tl (history (initial_window scr))
   \<and> map lbl_text (history_labels (process_events (initial_window scr)
        [(''hel'', False), (''hell'', False), (''hello'', False), (''hello world'', True)]))
       = ''hello world'' # tl (map lbl_text (history_labels (initial_window scr)))
   \<and> history (process_text_update w txt False) = history w
   \<and> history_labels (process_text_update w txt False) = history_labels w
   \<and> lbl_text (partial_label (process_text_update w txt False)) = txt"
proof -
  let ?evs = "[(''hel'', False), (''hell'', False), (''hello'', False), (''hello world'', True)]"
  let ?w = "process_events (initial_window scr) ?evs"
  have p: "lbl_text (partial_label (process_events v ?evs)) = []"
    by (simp add: process_text_update_def Let_def)
  have ph: "history (process_events v ?evs) = push_history ''hello world'' (history v)"
    unfolding history_process_events by simp
  then have s0: "hd (history (process_events v ?evs)) = ''hello world''"
    by (cases "history v") (simp_all add: push_history_def Let_def MAX_HISTORY_def)
  have sh: "history (process_events v ?evs) = ''hello world'' # butlast (history v)"
    if "length (history v) = MAX_HISTORY"
    unfolding ph using that by (auto simp add: push_history_def Let_def MAX_HISTORY_def)
  have h: "history ?w = ''hello world'' # tl (history (initial_window scr))"
    unfolding history_after_events history_initial_window by (simp add: MAX_HISTORY_def)
  have "length (map lbl_text (history_labels (initial_window scr))) = MAX_HISTORY"
    by (simp only: labels_initial_window length_replicate)
  then have len: "length (history_labels (initial_window scr)) = MAX_HISTORY"
    by simp
  have "map lbl_text (history_labels ?w) = history ?w"
    using labels_process_events [of "initial_window scr" ?evs] len
    by (simp only: history_initial_window labels_initial_window length_replicate simp_thms)
  then have l: "map lbl_text (history_labels ?w)
      = ''hello world'' # tl (map lbl_text (history_labels (initial_window scr)))"
    by (simp only: h history_initial_window labels_initial_window)
  have f: "history (process_text_update w txt False) = history w
     \<and> history_labels (process_text_update w txt False) = history_labels w
     \<and> lbl_text (partial_label (process_text_update w txt False)) = txt"
    by (simp add: process_text_update_def)
  from p s0 sh h l f show ?thesis by blast
qed

theorem C6_partials_then_final_witness:
  "length (history (process_events
      (initial_window \<lparr>winfo_screenwidth = 1920, winfo_screenheight = 1080, winfo_width = 1\<rparr>)
      [(''a'', True)])) = MAX_HISTORY
   \<and> history (process_events
        (process_events
          (initial_window \<lparr>winfo_screenwidth = 1920, winfo_screenheight = 1080, winfo_width = 1\<rparr>)
          [(''a'', True)])
        [(''hel'', False), (''hell'', False), (''hello'', False), (''hello world'', True)])
       = ''hello world'' # ''a'' # replicate 8 []"
proof -
  let ?w = "process_events
      (initial_window \<lparr>winfo_screenwidth = 1920, winfo_screenheight = 1080, winfo_width = 1\<rparr>)
      [(''a'', True)]"
  have a: "history ?w = ''a'' # replicate 9 []"
    unfolding history_after_events by (simp add: MAX_HISTORY_def)
  have len: "length (history ?w) = MAX_HISTORY"
    by (simp only: a) (simp add: MAX_HISTORY_def)
  have "butlast (''a'' # replicate 9 []) = ''a'' # replicate 8 []"
    by (simp add: butlast_conv_take)
  then show ?thesis
    using C6_partials_then_final [of ?w] len by (simp only: a simp_thms)
qed

text \<open>
  Claim C9: the history always holds exactly \<open>MAX_HISTORY = 10\<close> strings. It starts as
  ten empty strings; a final event on a history of length ten puts its text at index 0
  and drops the last entry, so the length stays ten; after any sequence of events from
  the initial state the length is ten and the slots from the number of final events on
  are still empty.
\<close>

theorem C9_history_length_invariant:
  "history (initial_window scr) = replicate MAX_HISTORY []
   \<and> length (history (process_events (initial_window scr) evs)) = MAX_HISTORY
   \<and> drop (length (finals evs)) (history (process_events (initial_window scr) evs))
       = replicate (MAX_HISTORY - length (finals evs)) []
   \<and> (length (history w) = MAX_HISTORY \<longrightarrow>
        history (process_text_update w txt True) = txt # butlast (history w)
        \<and> length (history (process_text_update w txt True)) = MAX_HISTORY)"
proof -
  have a: "length (history (process_events (initial_window scr) evs)) = MAX_HISTORY"
    unfolding history_after_events by (simp add: min_def)
  have b: "drop (length (finals evs)) (history (process_events (initial_window scr) evs))
       = replicate (MAX_HISTORY - length (finals evs)) []"
    unfolding history_after_events by (simp add: min_def)
  have c: "history (process_text_update w txt True) = txt # butlast (history w)
        \<and> length (history (process_text_update w txt True)) = MAX_HISTORY"
    if "length (history w) = MAX_HISTORY"
    using that by (auto simp add: history_process_text_update push_history_def MAX_HISTORY_def)
  from a b c history_initial_window [of scr] show ?thesis
    by blast
qed

theorem C9_history_length_invariant_witness:
  "length (history (initial_window \<lparr>winfo_screenwidth = 1920, winfo_screenheight = 1080, winfo_width = 1\<rparr>)) = MAX_HISTORY
   \<and> history (process_text_update (initial_window \<lparr>winfo_screenwidth = 1920, winfo_screenheight = 1080, winfo_width = 1\<rparr>) ''a'' True)
      = ''a'' # replicate 9 []"
  using C9_history_length_invariant [of "\<lparr>winfo_screenwidth = 1920, winfo_screenheight = 1080, winfo_width = 1\<rparr>" "[]"
      "initial_window \<lparr>winfo_screenwidth = 1920, winfo_screenheight = 1080, winfo_width = 1\<rparr>" "''a''"]
  by (simp add: MAX_HISTORY_def butlast_conv_take)

section \<open>The colour table: parsing\<close>

lemma hex_digit_char:
  "hex_digit c = Some d \<Longrightarrow>
     \<not> py_isspace c \<and> c \<noteq> CHR ''+'' \<and> c \<noteq> CHR ''-'' \<and> c \<noteq> CHR ''_''
     \<and> c \<noteq> CHR ''x'' \<and> c \<noteq> CHR ''X'' \<and> d < 16"
  by (auto simp add: hex_digit_def py_isspace_def Let_def split: if_splits)

lemma py_int16_two_digits:
  assumes "is_hex_char a" "is_hex_char b"
  shows "py_int16 [a, b] = Some (hex_byte a b)"
proof -
  obtain x y where x: "hex_digit a = Some x" and y: "hex_digit b = Some y"
    using assms by (auto simp add: is_hex_char_def)
  note ca = hex_digit_char [OF x] and cb = hex_digit_char [OF y]
  show ?thesis
    using ca cb by (simp add: py_int16_def x y hex_byte_def)
qed

lemma six_hex_digits_slices:
  assumes "has_six_hex_digits s"
  shows "startswith s ''#''"
    and "py_int16 (slice 1 3 s) = Some (red s)"
    and "py_int16 (slice 3 5 s) = Some (green s)"
    and "py_int16 (slice 5 7 s) = Some (blue s)"
proof -
  obtain h a b c d e f rest where s: "s = h # a # b # c # d # e # f # rest"
    using assms by (auto elim: has_six_hex_digits.elims)
  have hx: "h = CHR ''#''" "is_hex_char a" "is_hex_char b" "is_hex_char c"
      "is_hex_char d" "is_hex_char e" "is_hex_char f"
    using assms s by simp_all
  show "startswith s ''#''"
    by (simp add: s hx startswith_def)
  show "py_int16 (slice 1 3 s) = Some (red s)"
    by (simp add: s slice_def red_def py_int16_two_digits hx)
  show "py_int16 (slice 3 5 s) = Some (green s)"
    by (simp add: s slice_def green_def py_int16_two_digits hx)
  show "py_int16 (slice 5 7 s) = Some (blue s)"
    by (simp add: s slice_def blue_def py_int16_two_digits hx)
qed

lemma update_color_cache_six_hex_digits:
  assumes "has_six_hex_digits (text_color (settings w))"
  shows "update_color_cache w =
     (w\<lparr>color_cache := map (fade_color (red (text_color (settings w)))
          (green (text_color (settings w))) (blue (text_color (settings w)))) [0..<MAX_HISTORY]\<rparr>,
      Returned)"
  using six_hex_digits_slices [OF assms] by (simp add: update_color_cache_def Let_def)

text \<open>
  Claim C4: for a base colour that does not start with \<open>#\<close>, \<open>_update_color_cache\<close> returns
  normally and the table has \<open>MAX_HISTORY\<close> slots, each the unscaled base colour.
\<close>

theorem C4_named_color_no_fade:
  assumes "\<not> startswith (text_color (settings w)) ''#''"
  shows "update_color_cache w =
           (w\<lparr>color_cache := replicate MAX_HISTORY (text_color (settings w))\<rparr>, Returned)
         \<and> length (color_cache (fst (update_color_cache w))) = MAX_HISTORY
         \<and> set (color_cache (fst (update_color_cache w))) = {text_color (settings w)}"
  using assms by (simp add: update_color_cache_def MAX_HISTORY_def)

theorem C4_named_color_no_fade_witness:
  "\<not> startswith ''white'' ''#''
   \<and> update_color_cache (with_text_color blank_window ''white'')
      = ((with_text_color blank_window ''white'')\<lparr>color_cache := replicate MAX_HISTORY ''white''\<rparr>, Returned)"
  using C4_named_color_no_fade [of "with_text_color blank_window ''white''"]
  by (simp add: with_text_color_def startswith_def)

lemma py_int16_empty: "py_int16 [] = None"
  by (simp add: py_int16_def)

lemma update_color_cache_short:
  assumes "startswith (text_color (settings w)) ''#''" "length (text_color (settings w)) \<le> 5"
  shows "update_color_cache w = (w\<lparr>color_cache := []\<rparr>, Raised ValueError)"
proof -
  have "slice 5 7 (text_color (settings w)) = []"
    using assms(2) by (simp add: slice_def)
  then show ?thesis
    using assms(1) by (simp add: update_color_cache_def Let_def py_int16_empty split: option.splits)
qed

text \<open>
  Claim C10, as stated: \<open>_update_color_cache\<close> returns only if the \<open>#\<close> is followed by at
  least six hexadecimal digits, a one-character slice raising \<open>ValueError\<close>. It fails at
  \<open>"#FFFFF"\<close>: the slice \<open>[5:7]\<close> is the single character \<open>"F"\<close>, \<open>int("F", 16)\<close> is 15, and
  the table is computed.
\<close>

theorem C10_five_digits_accepted:
  "snd (update_color_cache (with_text_color blank_window ''#FFFFF'')) = Returned
   \<and> \<not> has_six_hex_digits ''#FFFFF''
   \<and> slice 5 7 ''#FFFFF'' = ''F''
   \<and> py_int16 ''F'' = Some 15"
  by (simp add: update_color_cache_def with_text_color_def blank_window_def default_settings_def
      startswith_def slice_def py_int16_def py_isspace_def hex_digit_def Let_def)

text \<open>
  Claim C10, amended: \<open>_update_color_cache\<close> returns a full table whenever the \<open>#\<close> is
  followed by at least six hexadecimal digits. For a colour that starts with \<open>#\<close> it
  raises \<open>ValueError\<close> exactly when one of the slices \<open>[1:3]\<close>, \<open>[3:5]\<close>, \<open>[5:7]\<close> is not
  accepted by \<open>int(_, 16)\<close>; this is so for every such colour of at most five characters,
  whose slice \<open>[5:7]\<close> is empty, as for \<open>"#FFF"\<close>, and the table is then left empty.
\<close>

theorem C10_color_parse_errors:
  "(has_six_hex_digits (text_color (settings w)) \<longrightarrow>
      snd (update_color_cache w) = Returned
      \<and> length (color_cache (fst (update_color_cache w))) = MAX_HISTORY)
   \<and> (startswith (text_color (settings w)) ''#'' \<and> length (text_color (settings w)) \<le> 5 \<longrightarrow>
        update_color_cache w = (w\<lparr>color_cache := []\<rparr>, Raised ValueError))
   \<and> (startswith (text_color (settings w)) ''#'' \<longrightarrow>
        (snd (update_color_cache w) = Raised ValueError) =
          (py_int16 (slice 1 3 (text_color (settings w))) = None
           \<or> py_int16 (slice 3 5 (text_color (settings w))) = None
           \<or> py_int16 (slice 5 7 (text_color (settings w))) = None))
   \<and> update_color_cache (with_text_color w ''#FFF'')
        = ((with_text_color w ''#FFF'')\<lparr>color_cache := []\<rparr>, Raised ValueError)
   \<and> (snd (update_color_cache w) \<noteq> Returned \<longrightarrow>
        update_color_cache w = (w\<lparr>color_cache := []\<rparr>, Raised ValueError))"
proof -
  have e: "update_color_cache w = (w\<lparr>color_cache := []\<rparr>, Raised ValueError)"
    if "snd (update_color_cache w) \<noteq> Returned"
    using that by (simp add: update_color_cache_def Let_def split: option.splits if_splits)
  have a: "snd (update_color_cache w) = Returned
      \<and> length (color_cache (fst (update_color_cache w))) = MAX_HISTORY"
    if "has_six_hex_digits (text_color (settings w))"
    by (simp add: update_color_cache_six_hex_digits [OF that])
  have c: "(snd (update_color_cache w) = Raised ValueError) =
          (py_int16 (slice 1 3 (text_color (settings w))) = None
           \<or> py_int16 (slice 3 5 (text_color (settings w))) = None
           \<or> py_int16 (slice 5 7 (text_color (settings w))) = None)"
    if "startswith (text_color (settings w)) ''#''"
    using that by (simp add: update_color_cache_def Let_def split: option.splits)
  have d: "update_color_cache (with_text_color w ''#FFF'')
        = ((with_text_color w ''#FFF'')\<lparr>color_cache := []\<rparr>, Raised ValueError)"
    by (rule update_color_cache_short) (simp_all add: with_text_color_def startswith_def)
  from a c d e update_color_cache_short [of w] show ?thesis
    by blast
qed

theorem C10_color_parse_errors_witness:
  "has_six_hex_digits ''#FFFFFF''
   \<and> snd (update_color_cache (with_text_color blank_window ''#FFFFFF'')) = Returned
   \<and> startswith ''#FFF'' ''#'' \<and> length ''#FFF'' \<le> 5
   \<and> snd (update_color_cache (with_text_color blank_window ''#FFF'')) = Raised ValueError"
  using C10_color_parse_errors [of "with_text_color blank_window ''#FFFFFF''"]
        C10_color_parse_errors [of "with_text_color blank_window ''#FFF''"]
  by (simp add: with_text_color_def startswith_def is_hex_char_def hex_digit_def)

section \<open>Rounding to a double\<close>

lemma pow2_powi: "pow2 e = 2 powi e"
  by (simp add: pow2_def power_int_def inverse_eq_divide power_one_over)

lemma pow2_pos: "0 < pow2 e"
  by (simp add: pow2_powi)

lemma binade_bounds:
  assumes "0 < a"
  shows "pow2 (binade a) \<le> a \<and> a < pow2 (binade a + 1)"
proof -
  obtain n d where q: "quotient_of a = (n, d)"
    by (cases "quotient_of a")
  have d: "0 < d" using q by (rule quotient_of_denom_pos)
  have a: "a = of_int n / of_int d" using q by (rule quotient_of_div)
  have n: "0 < n"
    using assms d a by (simp add: zero_less_divide_iff)
  define bn bd where "bn = bitlen n" and "bd = bitlen d"
  have bn1: "1 \<le> bn" and bd1: "1 \<le> bd"
    using n d by (simp_all add: bn_def bd_def bitlen_alt_def)
  have nb: "(2::int) ^ nat (bn - 1) \<le> n" "n < 2 ^ nat bn"
    using bitlen_bounds [OF n] by (simp_all add: bn_def)
  have db: "(2::int) ^ nat (bd - 1) \<le> d" "d < 2 ^ nat bd"
    using bitlen_bounds [OF d] by (simp_all add: bd_def)
  have nr: "(2::rat) powi (bn - 1) \<le> of_int n" "(of_int n :: rat) < 2 powi bn"
  proof -
    have "(of_int ((2::int) ^ nat (bn - 1)) :: rat) \<le> of_int n"
      using nb(1) by (simp only: of_int_le_iff)
    then show "(2::rat) powi (bn - 1) \<le> of_int n"
      using bn1 by (simp add: power_int_def)
    have "(of_int n :: rat) < of_int ((2::int) ^ nat bn)"
      using nb(2) by (simp only: of_int_less_iff)
    then show "(of_int n :: rat) < 2 powi bn"
      using bn1 by (simp add: power_int_def)
  qed
  have dr: "(2::rat) powi (bd - 1) \<le> of_int d" "(of_int d :: rat) < 2 powi bd"
  proof -
    have "(of_int ((2::int) ^ nat (bd - 1)) :: rat) \<le> of_int d"
      using db(1) by (simp only: of_int_le_iff)
    then show "(2::rat) powi (bd - 1) \<le> of_int d"
      using bd1 by (simp add: power_int_def)
    have "(of_int d :: rat) < of_int ((2::int) ^ nat bd)"
      using db(2) by (simp only: of_int_less_iff)
    then show "(of_int d :: rat) < 2 powi bd"
      using bd1 by (simp add: power_int_def)
  qed
  have dpos: "(0::rat) < of_int d" using d by simp
  have npos: "(0::rat) < of_int n" using n by simp
  have up: "a < 2 powi (bn - bd + 1)"
  proof -
    have "a * of_int d = of_int n" using a dpos by simp
    also have "\<dots> < 2 powi bn" by (rule nr(2))
    also have "\<dots> = 2 powi (bn - bd + 1) * 2 powi (bd - 1)"
      by (simp add: power_int_add [symmetric])
    also have "\<dots> \<le> 2 powi (bn - bd + 1) * of_int d"
      using dr(1) by (simp add: mult_left_mono)
    finally show ?thesis using dpos by simp
  qed
  have lo: "2 powi (bn - bd - 1) < a"
  proof -
    have "2 powi (bn - bd - 1) * of_int d < 2 powi (bn - bd - 1) * (2::rat) powi bd"
      using dr(2) by (simp add: mult_strict_left_mono)
    also have "\<dots> = 2 powi (bn - 1)"
      by (simp add: power_int_add [symmetric])
    also have "\<dots> \<le> of_int n" by (rule nr(1))
    also have "\<dots> = a * of_int d" using a dpos by simp
    finally show ?thesis using dpos by simp
  qed
  have b: "binade a = (if pow2 (bn - bd) \<le> a then bn - bd else bn - bd - 1)"
    by (simp add: binade_def q bn_def bd_def Let_def)
  show ?thesis
  proof (cases "pow2 (bn - bd) \<le> a")
    case True
    then show ?thesis using up b by (simp add: pow2_powi)
  next
    case False
    then show ?thesis using lo b by (simp add: pow2_powi)
  qed
qed

lemma round_even_lower: "of_int m \<le> q \<Longrightarrow> m \<le> round_even q"
proof -
  assume "of_int m \<le> q"
  then have "m \<le> \<lfloor>q\<rfloor>" by (simp add: le_floor_iff)
  then show ?thesis by (simp add: round_even_def Let_def)
qed

lemma round_even_upper: "q \<le> of_int m \<Longrightarrow> round_even q \<le> m"
proof -
  assume h: "q \<le> of_int m"
  show ?thesis
  proof (cases "q = of_int m")
    case True
    then show ?thesis by (simp add: round_even_def)
  next
    case False
    then have "q < of_int m" using h by simp
    then have "\<lfloor>q\<rfloor> < m" by (simp add: floor_less_iff)
    then show ?thesis by (simp add: round_even_def Let_def)
  qed
qed

lemma round_even_near: "of_int m - 1 / 2 < q \<Longrightarrow> m \<le> round_even q"
proof -
  assume h: "of_int m - 1 / 2 < q"
  have f: "q < of_int \<lfloor>q\<rfloor> + 1" "of_int \<lfloor>q\<rfloor> \<le> q"
    by linarith+
  have "of_int m < of_int \<lfloor>q\<rfloor> + (3::rat) / 2" using h f(1) by linarith
  then have "of_int m < (of_int (\<lfloor>q\<rfloor> + 2) :: rat)" by simp
  then have m1: "m < \<lfloor>q\<rfloor> + 2" by (simp only: of_int_less_iff)
  show ?thesis
  proof (cases "q - of_int \<lfloor>q\<rfloor> < 1 / 2")
    case True
    then have "(of_int m :: rat) < of_int \<lfloor>q\<rfloor> + 1" using h by linarith
    then have "(of_int m :: rat) < of_int (\<lfloor>q\<rfloor> + 1)" by simp
    then have "m < \<lfloor>q\<rfloor> + 1" by (simp only: of_int_less_iff)
    then show ?thesis using True by (simp add: round_even_def Let_def)
  next
    case False
    have t: "m \<le> \<lfloor>q\<rfloor>" if "q - of_int \<lfloor>q\<rfloor> = 1 / 2"
    proof -
      have "(of_int m :: rat) < of_int \<lfloor>q\<rfloor> + 1" using h that by linarith
      then have "(of_int m :: rat) < of_int (\<lfloor>q\<rfloor> + 1)" by simp
      then have "m < \<lfloor>q\<rfloor> + 1" by (simp only: of_int_less_iff)
      then show ?thesis by simp
    qed
    show ?thesis
      using False m1 t by (auto simp add: round_even_def Let_def)
  qed
qed

lemma round_double_pos:
  "0 < x \<Longrightarrow>
     round_double x = of_int (round_even (x / pow2 (binade x - 52))) * pow2 (binade x - 52)"
  by (simp add: round_double_def Let_def)

text \<open>For \<open>0 < x < 256\<close> the unit in the last place is \<open>1/2^k\<close> with \<open>45 \<le> k\<close>.\<close>

lemma ulp_below_256:
  assumes "0 < x" "x < 256"
  obtains k where "45 \<le> k" "pow2 (binade x - 52) = 1 / 2 ^ k" "k = nat (52 - binade x)"
proof -
  have "pow2 (binade x) \<le> x" using binade_bounds [OF assms(1)] by simp
  then have "(2::rat) powi binade x < 2 powi 8" using assms(2) by (simp add: pow2_powi)
  then have e: "binade x < 8"
    by (rule power_int_le_imp_less_exp [rotated]) simp_all
  define k where "k = nat (52 - binade x)"
  have k: "45 \<le> k" using e by (simp add: k_def)
  have "binade x - 52 = - int k" using e by (simp add: k_def)
  then have "pow2 (binade x - 52) = 1 / 2 ^ k"
    by (simp add: pow2_powi power_int_minus inverse_eq_divide)
  then show ?thesis using k k_def that by blast
qed

lemma pow2_split_44: "45 \<le> k \<Longrightarrow> (2::rat) ^ k = 2 ^ 44 * 2 ^ (k - 44)"
proof -
  assume "45 \<le> k"
  then have "44 + (k - 44) = k" by simp
  moreover have "(2::rat) ^ (44 + (k - 44)) = 2 ^ 44 * 2 ^ (k - 44)" by (rule power_add)
  ultimately show ?thesis by simp
qed

lemma round_double_lower:
  assumes "0 < x" "x < 256" "of_int a / 2 ^ 44 \<le> x"
  shows "of_int a / 2 ^ 44 \<le> round_double x"
proof -
  obtain k where k: "45 \<le> k" and u: "pow2 (binade x - 52) = 1 / 2 ^ k"
    using ulp_below_256 [OF assms(1,2)] by blast
  have split: "(2::rat) ^ k = 2 ^ 44 * 2 ^ (k - 44)"
    using k by (rule pow2_split_44)
  have "of_int a * 2 ^ (k - 44) \<le> x * 2 ^ k"
    using assms(3) by (simp add: split field_simps)
  then have "(of_int (a * 2 ^ (k - 44)) :: rat) \<le> x / pow2 (binade x - 52)"
    by (simp add: u)
  then have "a * 2 ^ (k - 44) \<le> round_even (x / pow2 (binade x - 52))"
    by (rule round_even_lower)
  then have "(of_int (a * 2 ^ (k - 44)) :: rat) \<le> of_int (round_even (x / pow2 (binade x - 52)))"
    by (simp only: of_int_le_iff)
  then have "of_int a * 2 ^ (k - 44) / 2 ^ k \<le> round_double x"
    by (simp add: round_double_pos [OF assms(1)] u divide_right_mono)
  then show ?thesis
    by (simp add: split)
qed

lemma round_double_upper:
  assumes "0 < x" "x < 256" "x \<le> of_int b / 2 ^ 44"
  shows "round_double x \<le> of_int b / 2 ^ 44"
proof -
  obtain k where k: "45 \<le> k" and u: "pow2 (binade x - 52) = 1 / 2 ^ k"
    using ulp_below_256 [OF assms(1,2)] by blast
  have split: "(2::rat) ^ k = 2 ^ 44 * 2 ^ (k - 44)"
    using k by (rule pow2_split_44)
  have "x * 2 ^ k \<le> of_int b * 2 ^ (k - 44)"
    using assms(3) by (simp add: split field_simps)
  then have "x / pow2 (binade x - 52) \<le> (of_int (b * 2 ^ (k - 44)) :: rat)"
    by (simp add: u)
  then have "round_even (x / pow2 (binade x - 52)) \<le> b * 2 ^ (k - 44)"
    by (rule round_even_upper)
  then have "(of_int (round_even (x / pow2 (binade x - 52))) :: rat) \<le> of_int (b * 2 ^ (k - 44))"
    by (simp only: of_int_le_iff)
  then have "round_double x \<le> of_int b * 2 ^ (k - 44) / 2 ^ k"
    by (simp add: round_double_pos [OF assms(1)] u divide_right_mono)
  then show ?thesis
    by (simp add: split)
qed

lemma round_double_small_int:
  assumes "0 \<le> r" "r \<le> 255"
  shows "round_double (of_int r) = of_int r"
proof (cases "r = 0")
  case True
  then show ?thesis by (simp add: round_double_def)
next
  case False
  then have p: "(0::rat) < of_int r" "(of_int r :: rat) < 256"
    using assms by simp_all
  have e: "(of_int r :: rat) = of_int (r * 2 ^ 44) / 2 ^ 44"
    by simp
  have "of_int (r * 2 ^ 44) / 2 ^ 44 \<le> round_double (of_int r)"
    by (rule round_double_lower [OF p]) simp
  moreover have "round_double (of_int r) \<le> of_int (r * 2 ^ 44) / 2 ^ 44"
    by (rule round_double_upper [OF p]) simp
  ultimately show ?thesis
    using e by linarith
qed

text \<open>
  A value just below an integer \<open>m\<close>, nearer to it than half a unit in the last place,
  rounds to \<open>m\<close>.
\<close>

lemma round_double_to_int:
  assumes "0 < x" "x < 256" "2 ^ j \<le> x" "of_int m - 2 ^ j / 2 ^ 53 < x" "x \<le> of_int m"
  shows "round_double x = of_int m"
proof -
  obtain k where k: "45 \<le> k" and u: "pow2 (binade x - 52) = 1 / 2 ^ k"
      and kd: "k = nat (52 - binade x)"
    using ulp_below_256 [OF assms(1,2)] by blast
  have "x < pow2 (binade x + 1)" using binade_bounds [OF assms(1)] by simp
  then have "(2::rat) powi int j < 2 powi (binade x + 1)"
    using assms(3) by (simp add: pow2_powi)
  then have "int j < binade x + 1"
    using power_int_increasing [of "binade x + 1" "int j" "2::rat"] by (cases "int j < binade x + 1") simp_all
  then have jk: "j + k \<le> 52"
    using kd k by arith
  have "(2::rat) ^ (j + k) \<le> 2 ^ 52"
    using jk by (intro power_increasing) simp_all
  then have "(2::rat) ^ j * 2 ^ k \<le> 2 ^ 52"
    by (simp only: power_add)
  then have half: "(2::rat) ^ j / 2 ^ 53 * 2 ^ k \<le> 1 / 2"
    by simp
  have "(of_int m - 2 ^ j / 2 ^ 53) * 2 ^ k < x * 2 ^ k"
    using assms(4) by simp
  then have "of_int m * 2 ^ k - 1 / 2 < x * 2 ^ k"
    using half by (simp add: algebra_simps)
  then have "(of_int (m * 2 ^ k) :: rat) - 1 / 2 < x / pow2 (binade x - 52)"
    by (simp add: u)
  then have lo: "m * 2 ^ k \<le> round_even (x / pow2 (binade x - 52))"
    by (rule round_even_near)
  have "x * 2 ^ k \<le> of_int m * 2 ^ k"
    using assms(5) by simp
  then have "x / pow2 (binade x - 52) \<le> (of_int (m * 2 ^ k) :: rat)"
    by (simp add: u)
  then have "round_even (x / pow2 (binade x - 52)) \<le> m * 2 ^ k"
    by (rule round_even_upper)
  then have "round_even (x / pow2 (binade x - 52)) = m * 2 ^ k"
    using lo by simp
  then show ?thesis
    by (simp add: round_double_pos [OF assms(1)] u)
qed

section \<open>The colour table: fading\<close>

lemma fade_factor_values:
  "fade_factor 0 = 1"
  "fade_factor (Suc 0) = 4203359652212463 / 4503599627370496"
  "fade_factor 2 = 1951559838527215 / 2251799813685248"
  "fade_factor 3 = 3602879701896397 / 4503599627370496"
  "fade_factor 4 = 825659931684591 / 1125899906842624"
  "fade_factor 5 = 3002399751580331 / 4503599627370496"
  "fade_factor 6 = 5404319552844595 / 9007199254740992"
  "fade_factor 7 = 4803839602528529 / 9007199254740992"
  "fade_factor 8 = 4203359652212463 / 9007199254740992"
  "fade_factor 9 = 3602879701896397 / 9007199254740992"
  by code_simp+

lemma int_of_float_bracket:
  assumes "0 < x" "x < 256" "0 \<le> n" "of_int n \<le> x" "x \<le> of_int n + 1 - 1 / 2 ^ 44"
  shows "int_of_float (round_double x) = n"
proof -
  have "of_int (n * 2 ^ 44) / 2 ^ 44 \<le> round_double x"
    by (rule round_double_lower [OF assms(1,2)]) (use assms(4) in simp)
  then have lo: "of_int n \<le> round_double x"
    by simp
  have "round_double x \<le> of_int ((n + 1) * 2 ^ 44 - 1) / 2 ^ 44"
    by (rule round_double_upper [OF assms(1,2)]) (use assms(5) in \<open>simp add: field_simps\<close>)
  then have hi: "round_double x < of_int n + 1"
    by (simp add: field_simps)
  have "\<lfloor>round_double x\<rfloor> = n"
    using lo hi by (rule floor_unique)
  moreover have "0 \<le> round_double x"
    using lo assms(3) by (simp add: order_trans [of 0 "of_int n"])
  ultimately show ?thesis
    by (simp add: int_of_float_def)
qed

lemma div_15_bounds: "15 * (m div 15) \<le> (m::int) \<and> m \<le> 15 * (m div 15) + 14"
  by presburger

text \<open>
  A factor that is the double next above \<open>c/15\<close>, or \<open>c/15\<close> itself: the product with
  \<open>r\<close> lies between \<open>r * c div 15\<close> and the next integer, far enough from the latter.
\<close>

lemma fade_component_above:
  assumes r: "0 < r" "r \<le> 255" and c: "0 < c" "c \<le> 15"
    and q: "of_int c / 15 \<le> q" "q \<le> of_int c / 15 + 1 / 2 ^ 53"
  shows "int_of_float (fmul (float_of_int r) q) = r * c div 15"
proof -
  define n where "n = r * c div 15"
  have n: "15 * n \<le> r * c" "r * c \<le> 15 * n + 14"
    using div_15_bounds [of "r * c"] by (simp_all add: n_def)
  have n0: "0 \<le> n"
    using r c by (simp add: n_def pos_imp_zdiv_nonneg_iff)
  have nr: "15 * (of_int n :: rat) \<le> of_int (r * c)" "(of_int (r * c) :: rat) \<le> 15 * of_int n + 14"
  proof -
    have "(of_int (15 * n) :: rat) \<le> of_int (r * c)" using n(1) by (simp only: of_int_le_iff)
    then show "15 * (of_int n :: rat) \<le> of_int (r * c)" by simp
    have "(of_int (r * c) :: rat) \<le> of_int (15 * n + 14)" using n(2) by (simp only: of_int_le_iff)
    then show "(of_int (r * c) :: rat) \<le> 15 * of_int n + 14" by simp
  qed
  define x where "x = (of_int r :: rat) * q"
  have rr: "(0::rat) < of_int r" "(of_int r :: rat) \<le> 255"
    using r by simp_all
  have lo: "of_int r * (of_int c / 15) \<le> x"
    unfolding x_def using q(1) rr(1) by (simp add: mult_left_mono)
  have "x \<le> of_int r * (of_int c / 15 + 1 / 2 ^ 53)"
    unfolding x_def using q(2) rr(1) by (intro mult_left_mono) simp_all
  then have hi: "x \<le> of_int (r * c) / 15 + 255 / 2 ^ 53"
    using rr(2) by (simp add: algebra_simps)
  have lo': "of_int (r * c) / 15 \<le> x"
    using lo by simp
  have cq: "(0::rat) < of_int c / 15" using c by simp
  have xpos: "0 < x"
    unfolding x_def using rr(1) q(1) cq by (simp add: zero_less_mult_iff)
  have "r * c \<le> 255 * 15"
    using mult_mono [of r 255 c 15] r c by simp
  then have "(of_int (r * c) :: rat) \<le> of_int (255 * 15)"
    by (simp only: of_int_le_iff)
  then have rc: "(of_int (r * c) :: rat) \<le> 255 * 15"
    by simp
  have x256: "x < 256"
    using hi rc by simp
  have b1: "of_int n \<le> x"
    using nr(1) lo' by simp
  have b2: "x \<le> of_int n + 1 - 1 / 2 ^ 44"
    using nr(2) hi by simp
  have "int_of_float (round_double x) = n"
    using xpos x256 n0 b1 b2 by (rule int_of_float_bracket)
  then show ?thesis
    using r by (simp add: fmul_def float_of_int_def round_double_small_int x_def n_def)
qed

text \<open>
  The factor of slot 6 is the double next below \<open>3/5\<close>. Where \<open>3 r / 5\<close> is an integer the
  product lies just below it and rounds to it; elsewhere it is at least \<open>1/5\<close> above
  the integer part.
\<close>

lemma fade_component_6:
  assumes r: "0 < r" "r \<le> 255"
  shows "int_of_float (fmul (float_of_int r) (5404319552844595 / 9007199254740992)) = r * 9 div 15"
proof -
  define n where "n = r * 9 div 15"
  define x where "x = (of_int r :: rat) * (5404319552844595 / 9007199254740992)"
  have n: "15 * n \<le> r * 9" "r * 9 \<le> 15 * n + 14"
    using div_15_bounds [of "r * 9"] by (simp_all add: n_def)
  have n0: "0 \<le> n" "n \<le> 153"
    using n r by simp_all
  have rr: "(0::rat) < of_int r" "(of_int r :: rat) \<le> 255"
    using r by simp_all
  have xpos: "0 < x" and x256: "x < 256"
    using rr by (simp_all add: x_def)
  have fm: "fmul (float_of_int r) (5404319552844595 / 9007199254740992) = round_double x"
    using r by (simp add: fmul_def float_of_int_def round_double_small_int x_def)
  have xr: "x = of_int (r * 9) / 15 - of_int r / (5 * 2 ^ 53)"
    by (simp add: x_def)
  show ?thesis
  proof (cases "r * 9 = 15 * n")
    case True
    have "(of_int (r * 9) :: rat) = of_int (15 * n)"
      using True by simp
    then have r9: "(of_int r :: rat) * 9 = 15 * of_int n"
      by simp
    then have xn: "x = of_int n - of_int n / (3 * 2 ^ 53)"
      by (simp add: xr field_simps)
    have n3: "3 \<le> n"
      using True r by presburger
    have nn: "(3::rat) \<le> of_int n" "(of_int n :: rat) \<le> 153"
      using n3 n0(2) by simp_all
    have le: "x \<le> of_int n"
      using nn by (simp add: xn)
    have step: "round_double x = of_int n"
      if "2 ^ j \<le> x" "of_int n < 3 * (2::rat) ^ j" for j
    proof -
      have "of_int n - 2 ^ j / 2 ^ 53 < x"
        using that(2) by (simp add: xn field_simps)
      then show ?thesis
        using xpos x256 that(1) le by (intro round_double_to_int)
    qed
    consider "n < 6" | "6 \<le> n" "n < 12" | "12 \<le> n" "n < 24" | "24 \<le> n" "n < 48"
      | "48 \<le> n" "n < 96" | "96 \<le> n"
      by linarith
    then have "round_double x = of_int n"
    proof cases
      case 1
      then have "(of_int n :: rat) < 6" by simp
      then show ?thesis using nn by (intro step [of 1]) (simp_all add: xn)
    next
      case 2
      then have "(6::rat) \<le> of_int n" "(of_int n :: rat) < 12" by simp_all
      then show ?thesis by (intro step [of 2]) (simp_all add: xn)
    next
      case 3
      then have "(12::rat) \<le> of_int n" "(of_int n :: rat) < 24" by simp_all
      then show ?thesis by (intro step [of 3]) (simp_all add: xn)
    next
      case 4
      then have "(24::rat) \<le> of_int n" "(of_int n :: rat) < 48" by simp_all
      then show ?thesis by (intro step [of 4]) (simp_all add: xn)
    next
      case 5
      then have "(48::rat) \<le> of_int n" "(of_int n :: rat) < 96" by simp_all
      then show ?thesis by (intro step [of 5]) (simp_all add: xn)
    next
      case 6
      then have "(96::rat) \<le> of_int n" by simp
      then show ?thesis using nn by (intro step [of 6]) (simp_all add: xn)
    qed
    then show ?thesis
      using n0 by (simp add: fm int_of_float_def n_def)
  next
    case False
    then have "15 * n + 1 \<le> r * 9"
      using n(1) by simp
    then have "(of_int (15 * n + 1) :: rat) \<le> of_int (r * 9)"
      by (simp only: of_int_le_iff)
    then have lo: "15 * (of_int n :: rat) + 1 \<le> of_int (r * 9)"
      by simp
    have "(of_int (r * 9) :: rat) \<le> of_int (15 * n + 14)"
      using n(2) by (simp only: of_int_le_iff)
    then have hi: "(of_int (r * 9) :: rat) \<le> 15 * of_int n + 14"
      by simp
    have b1: "of_int n \<le> x"
      using lo rr by (simp add: xr)
    have b2: "x \<le> of_int n + 1 - 1 / 2 ^ 44"
      using hi rr by (simp add: xr)
    have "int_of_float (round_double x) = n"
      using xpos x256 n0(1) b1 b2 by (rule int_of_float_bracket)
    then show ?thesis
      by (simp add: fm n_def)
  qed
qed

text \<open>The factor of slot 7 is the double next below \<open>8/15\<close>.\<close>

lemma fade_component_7:
  assumes r: "0 < r" "r \<le> 255"
  shows "int_of_float (fmul (float_of_int r) (4803839602528529 / 9007199254740992)) = r * 8 div 15"
proof -
  define n where "n = r * 8 div 15"
  define x where "x = (of_int r :: rat) * (4803839602528529 / 9007199254740992)"
  have n: "15 * n \<le> r * 8" "r * 8 \<le> 15 * n + 14"
    using div_15_bounds [of "r * 8"] by (simp_all add: n_def)
  have n0: "0 \<le> n" "n \<le> 153"
    using n r by simp_all
  have rr: "(0::rat) < of_int r" "(of_int r :: rat) \<le> 255"
    using r by simp_all
  have xpos: "0 < x" and x256: "x < 256"
    using rr by (simp_all add: x_def)
  have fm: "fmul (float_of_int r) (4803839602528529 / 9007199254740992) = round_double x"
    using r by (simp add: fmul_def float_of_int_def round_double_small_int x_def)
  have xr: "x = of_int (r * 8) / 15 - of_int r / (15 * 2 ^ 53)"
    by (simp add: x_def)
  show ?thesis
  proof (cases "r * 8 = 15 * n")
    case True
    have "(of_int (r * 8) :: rat) = of_int (15 * n)"
      using True by simp
    then have r9: "(of_int r :: rat) * 8 = 15 * of_int n"
      by simp
    then have xn: "x = of_int n - of_int n / (8 * 2 ^ 53)"
      by (simp add: xr field_simps)
    have n3: "8 \<le> n"
      using True r by presburger
    have nn: "(8::rat) \<le> of_int n" "(of_int n :: rat) \<le> 153"
      using n3 n0(2) by simp_all
    have le: "x \<le> of_int n"
      using nn by (simp add: xn)
    have step: "round_double x = of_int n"
      if "2 ^ j \<le> x" "of_int n < 8 * (2::rat) ^ j" for j
    proof -
      have "of_int n - 2 ^ j / 2 ^ 53 < x"
        using that(2) by (simp add: xn field_simps)
      then show ?thesis
        using xpos x256 that(1) le by (intro round_double_to_int)
    qed
    consider "n < 32" | "32 \<le> n" "n < 128" | "128 \<le> n"
      by linarith
    then have "round_double x = of_int n"
    proof cases
      case 1
      then have "(of_int n :: rat) < 32" by simp
      then show ?thesis using nn by (intro step [of 2]) (simp_all add: xn)
    next
      case 2
      then have "(32::rat) \<le> of_int n" "(of_int n :: rat) < 128" by simp_all
      then show ?thesis by (intro step [of 4]) (simp_all add: xn)
    next
      case 3
      then have "(128::rat) \<le> of_int n" by simp
      then show ?thesis using nn by (intro step [of 5]) (simp_all add: xn)
    qed
    then show ?thesis
      using n0 by (simp add: fm int_of_float_def n_def)
  next
    case False
    then have "15 * n + 1 \<le> r * 8"
      using n(1) by simp
    then have "(of_int (15 * n + 1) :: rat) \<le> of_int (r * 8)"
      by (simp only: of_int_le_iff)
    then have lo: "15 * (of_int n :: rat) + 1 \<le> of_int (r * 8)"
      by simp
    have "(of_int (r * 8) :: rat) \<le> of_int (15 * n + 14)"
      using n(2) by (simp only: of_int_le_iff)
    then have hi: "(of_int (r * 8) :: rat) \<le> 15 * of_int n + 14"
      by simp
    have b1: "of_int n \<le> x"
      using lo rr by (simp add: xr)
    have b2: "x \<le> of_int n + 1 - 1 / 2 ^ 44"
      using hi rr by (simp add: xr)
    have "int_of_float (round_double x) = n"
      using xpos x256 n0(1) b1 b2 by (rule int_of_float_bracket)
    then show ?thesis
      by (simp add: fm n_def)
  qed
qed

lemma below_ten: "i < 10 \<Longrightarrow> i = 0 \<or> i = Suc 0 \<or> i = 2 \<or> i = 3 \<or> i = 4 \<or> i = 5 \<or> i = 6 \<or> i = 7 \<or> i = 8 \<or> i = (9::nat)"
  by arith

lemma fade_component_zero: "fade_component 0 i = 0"
  by (simp add: fade_component_def fmul_def float_of_int_def round_double_def int_of_float_def)

lemma fade_component_exact:
  assumes "0 \<le> r" "r \<le> 255" "i < MAX_HISTORY"
  shows "fade_component r i = r * (15 - int i) div 15"
proof (cases "r = 0")
  case True
  then show ?thesis by (simp add: fade_component_zero)
next
  case False
  then have r: "0 < r" "r \<le> 255" using assms by simp_all
  have i: "i = 0 \<or> i = Suc 0 \<or> i = 2 \<or> i = 3 \<or> i = 4 \<or> i = 5 \<or> i = 6 \<or> i = 7 \<or> i = 8 \<or> i = 9"
    using assms(3) by (intro below_ten) (simp add: MAX_HISTORY_def)
  have above: "fade_component r i = r * c div 15"
    if "0 < c" "c \<le> 15" "of_int c / 15 \<le> fade_factor i" "fade_factor i \<le> of_int c / 15 + 1 / 2 ^ 53" for c
    unfolding fade_component_def using r that by (rule fade_component_above)
  from i show ?thesis
  proof (elim disjE)
    assume "i = 0" then show ?thesis using above [of 15] by (simp add: fade_factor_values)
  next
    assume "i = Suc 0" then show ?thesis using above [of 14] by (simp add: fade_factor_values)
  next
    assume "i = 2" then show ?thesis using above [of 13] by (simp add: fade_factor_values)
  next
    assume "i = 3" then show ?thesis using above [of 12] by (simp add: fade_factor_values)
  next
    assume "i = 4" then show ?thesis using above [of 11] by (simp add: fade_factor_values)
  next
    assume "i = 5" then show ?thesis using above [of 10] by (simp add: fade_factor_values)
  next
    assume "i = 6" then show ?thesis
      using fade_component_6 [OF r] by (simp add: fade_component_def fade_factor_values)
  next
    assume "i = 7" then show ?thesis
      using fade_component_7 [OF r] by (simp add: fade_component_def fade_factor_values)
  next
    assume "i = 8" then show ?thesis using above [of 7] by (simp add: fade_factor_values)
  next
    assume "i = 9" then show ?thesis using above [of 6] by (simp add: fade_factor_values)
  qed
qed

lemma hex_byte_range:
  assumes "is_hex_char a" "is_hex_char b"
  shows "0 \<le> hex_byte a b \<and> hex_byte a b \<le> 255"
proof -
  obtain x y where x: "hex_digit a = Some x" and y: "hex_digit b = Some y"
    using assms by (auto simp add: is_hex_char_def)
  have "x < 16" "y < 16"
    using hex_digit_char [OF x] hex_digit_char [OF y] by simp_all
  then show ?thesis
    by (simp add: hex_byte_def x y)
qed

lemma hex_triple_range:
  assumes "has_six_hex_digits s"
  shows "0 \<le> red s \<and> red s \<le> 255 \<and> 0 \<le> green s \<and> green s \<le> 255
         \<and> 0 \<le> blue s \<and> blue s \<le> 255"
proof -
  obtain h a b c d e f rest where s: "s = h # a # b # c # d # e # f # rest"
    using assms by (auto elim: has_six_hex_digits.elims)
  have hx: "is_hex_char a" "is_hex_char b" "is_hex_char c"
      "is_hex_char d" "is_hex_char e" "is_hex_char f"
    using assms s by simp_all
  show ?thesis
    using hex_byte_range [OF hx(1,2)] hex_byte_range [OF hx(3,4)] hex_byte_range [OF hx(5,6)]
    by (simp add: s red_def green_def blue_def)
qed

lemma fade_factor_formula:
  assumes "i < MAX_HISTORY"
  shows "fade_factor i = py_max (round_double (1 / 5)) (fsub 1 (fdiv (of_nat i) 15))"
proof -
  have "float_of_int (int i) = of_nat i"
    using assms round_double_small_int [of "int i"] by (simp add: float_of_int_def MAX_HISTORY_def)
  moreover have "fmul (float_of_int (int MAX_HISTORY)) (3 / 2) = 15"
    using round_double_small_int [of 10] round_double_small_int [of 15]
    by (simp add: float_of_int_def fmul_def MAX_HISTORY_def)
  ultimately show ?thesis
    by (simp add: fade_factor_def)
qed

lemma fade_factor_near:
  assumes "i < MAX_HISTORY"
  shows "1 - of_nat i / 15 - 1 / 9007199254740992 \<le> fade_factor i
       \<and> fade_factor i \<le> 1 - of_nat i / 15 + 1 / 9007199254740992"
proof -
  have "i = 0 \<or> i = Suc 0 \<or> i = 2 \<or> i = 3 \<or> i = 4 \<or> i = 5 \<or> i = 6 \<or> i = 7 \<or> i = 8 \<or> i = 9"
    using assms by (intro below_ten) (simp add: MAX_HISTORY_def)
  then show ?thesis
    by (elim disjE) (simp_all add: fade_factor_values)
qed

lemma fade_factor_monotone:
  assumes "i \<le> j" "j < MAX_HISTORY"
  shows "fade_factor j \<le> fade_factor i"
proof (cases "i = j")
  case True
  then show ?thesis by simp
next
  case False
  then have "i + 1 \<le> j" using assms(1) by simp
  then have "(of_nat (i + 1) :: rat) \<le> of_nat j" by (simp only: of_nat_le_iff)
  then have ij: "(of_nat i :: rat) + 1 \<le> of_nat j" by simp
  have "i < MAX_HISTORY" using assms by simp
  then show ?thesis
    using fade_factor_near [of i] fade_factor_near [OF assms(2)] ij by linarith
qed

lemma fade_factor_bounds:
  assumes "i < MAX_HISTORY"
  shows "1 / 5 \<le> fade_factor i \<and> fade_factor i \<le> 1"
proof -
  have "i \<le> 9" using assms by (simp add: MAX_HISTORY_def)
  then have "(of_nat i :: rat) \<le> of_nat 9" by (simp only: of_nat_le_iff)
  then have i: "(of_nat i :: rat) \<le> 9" by simp
  have lo: "1 / 5 \<le> fade_factor i"
    using fade_factor_near [OF assms] i by linarith
  have "fade_factor i \<le> fade_factor 0"
    using assms by (intro fade_factor_monotone) simp_all
  then show ?thesis
    using lo by (simp add: fade_factor_values)
qed

text \<open>
  Claim C3: for a base colour \<open>#RRGGBB\<close> the table is computed without error and has
  \<open>MAX_HISTORY = 10\<close> entries. The factor of slot \<open>i\<close> is \<open>max(0.2, 1 - i/(10*1.5))\<close> in
  double arithmetic, within \<open>2^-53\<close> of the exact value; it is 1 exactly for slot 0, lies
  between 0.2 and 1, and does not increase with the slot. Entry \<open>i\<close> is \<open>#\<close> followed by
  the three components, each the base component times the factor, truncated, in two
  hexadecimal digits; the truncated product is \<open>c * (15 - i) div 15\<close>.
\<close>

theorem C3_fade_table:
  assumes "is_hex_triple (text_color (settings w))"
    and "i \<le> j" and "j < MAX_HISTORY"
  shows "snd (update_color_cache w) = Returned
     \<and> length (color_cache (fst (update_color_cache w))) = MAX_HISTORY
     \<and> py_max (round_double (1 / 5)) (fsub 1 (fdiv (of_nat i) 15)) = fade_factor i
     \<and> \<bar>fade_factor i - max (1 / 5) (1 - of_nat i / (of_nat MAX_HISTORY * (3 / 2)))\<bar> \<le> 1 / 2 ^ 53
     \<and> fade_factor 0 = 1
     \<and> 1 / 5 \<le> fade_factor i \<and> fade_factor i \<le> 1
     \<and> fade_factor j \<le> fade_factor i
     \<and> color_cache (fst (update_color_cache w)) ! i =
         CHR ''#'' # format_02x (int_of_float (fmul (float_of_int (red (text_color (settings w)))) (fade_factor i)))
           @ format_02x (int_of_float (fmul (float_of_int (green (text_color (settings w)))) (fade_factor i)))
           @ format_02x (int_of_float (fmul (float_of_int (blue (text_color (settings w)))) (fade_factor i)))
     \<and> int_of_float (fmul (float_of_int (red (text_color (settings w)))) (fade_factor i))
          = red (text_color (settings w)) * (15 - int i) div 15
     \<and> int_of_float (fmul (float_of_int (green (text_color (settings w)))) (fade_factor i))
          = green (text_color (settings w)) * (15 - int i) div 15
     \<and> int_of_float (fmul (float_of_int (blue (text_color (settings w)))) (fade_factor i))
          = blue (text_color (settings w)) * (15 - int i) div 15"
proof -
  let ?s = "text_color (settings w)"
  have six: "has_six_hex_digits ?s"
    using assms(1) by (simp add: is_hex_triple_def)
  have i: "i < MAX_HISTORY"
    using assms(2,3) by simp
  note u = update_color_cache_six_hex_digits [OF six]
  have ret: "snd (update_color_cache w) = Returned"
    and len: "length (color_cache (fst (update_color_cache w))) = MAX_HISTORY"
    by (simp_all add: u)
  have slot: "color_cache (fst (update_color_cache w)) ! i = fade_color (red ?s) (green ?s) (blue ?s) i"
    using i by (simp add: u)
  have "(of_nat i :: rat) \<le> of_nat 9"
    using i by (simp only: of_nat_le_iff) (simp add: MAX_HISTORY_def)
  then have "max (1 / 5) (1 - of_nat i / (of_nat MAX_HISTORY * (3 / 2))) = 1 - (of_nat i :: rat) / 15"
    by (simp add: MAX_HISTORY_def max_def)
  moreover have "\<bar>fade_factor i - (1 - of_nat i / 15)\<bar> \<le> 1 / 9007199254740992"
    using fade_factor_near [OF i] by linarith
  ultimately have near: "\<bar>fade_factor i - max (1 / 5) (1 - of_nat i / (of_nat MAX_HISTORY * (3 / 2)))\<bar> \<le> 1 / 2 ^ 53"
    by simp
  note rng = hex_triple_range [OF six]
  have comp: "int_of_float (fmul (float_of_int r) (fade_factor i)) = r * (15 - int i) div 15"
    if "0 \<le> r" "r \<le> 255" for r
    using fade_component_exact [OF that i] by (simp add: fade_component_def)
  show ?thesis
    using ret len fade_factor_formula [OF i, symmetric] near fade_factor_values(1) fade_factor_bounds [OF i]
      fade_factor_monotone [OF assms(2,3)] slot rng comp
    by (simp add: fade_color_def fade_component_def)
qed

theorem C3_fade_table_witness:
  "is_hex_triple ''#1e90ff''
   \<and> color_cache (fst (update_color_cache (with_text_color blank_window ''#1e90ff''))) ! 1 = ''#1c86ee''
   \<and> fade_factor 2 \<le> fade_factor 1"
proof -
  have h: "is_hex_triple ''#1e90ff''"
    by (simp add: is_hex_triple_def is_hex_char_def hex_digit_def)
  have c: "red ''#1e90ff'' = 30" "green ''#1e90ff'' = 144" "blue ''#1e90ff'' = 255"
    by (simp_all add: red_def green_def blue_def hex_byte_def hex_digit_def)
  have f: "format_02x 28 = ''1c''" "format_02x 134 = ''86''" "format_02x 238 = ''ee''"
    by (simp_all add: format_02x_def hex_char_def)
  have s: "text_color (settings (with_text_color blank_window ''#1e90ff'')) = ''#1e90ff''"
    by (simp add: with_text_color_def)
  have m: "(1::nat) \<le> 2" "2 < MAX_HISTORY"
    by (simp_all add: MAX_HISTORY_def)
  show ?thesis
    using C3_fade_table [of "with_text_color blank_window ''#1e90ff''" 1 2, unfolded s, OF h m]
    by (simp add: c f h)
qed

section \<open>Layout\<close>

lemma config_history_labels_returns:
  "length ls \<le> length cs \<Longrightarrow> snd (config_history_labels f wl cs ls) = Returned"
  by (induction f wl cs ls rule: config_history_labels.induct)
     (simp_all add: case_prod_unfold Let_def)

lemma config_history_labels_zip:
  "length ls \<le> length cs \<Longrightarrow>
     config_history_labels f wl cs ls = (map (\<lambda>(c, l). config_label f c wl l) (zip cs ls), Returned)"
  by (induction f wl cs ls rule: config_history_labels.induct) simp_all

lemma format_int_examples:
  "format_int 1920 = ''1920''" "format_int 250 = ''250''" "format_int 0 = ''0''"
  "format_int 790 = ''790''"
  by (simp_all add: format_int_def dec_char_def)

text \<open>
  Claim C5: on a 1920x1080 screen, not full screen, the top dock sends the geometry
  \<open>1920x250+0+0\<close> (x 0, y 0, width 1920, height 250) and the bottom dock
  \<open>1920x250+0+790\<close> (y = 1080 - 250 - 40); in both docked modes, on any screen, the wrap
  length is the screen width minus 50, here 1870. The window has a colour for each of
  its history labels, as it has after every \<open>_update_color_cache\<close> that returned.
\<close>

theorem C5_docked_layout:
  assumes "length (history_labels w) \<le> length (color_cache w)"
    and "\<not> fullscreen (settings w)"
  shows "(position (settings w) = ''top'' \<longrightarrow>
            root_geometry (fst (apply_visual_settings
                \<lparr>winfo_screenwidth = 1920, winfo_screenheight = 1080, winfo_width = ww\<rparr> w))
              = tk_geometry \<lparr>geo_x = 0, geo_y = 0, geo_width = 1920, geo_height = 250\<rparr>
          \<and> wrap_length (fst (apply_visual_settings
                \<lparr>winfo_screenwidth = 1920, winfo_screenheight = 1080, winfo_width = ww\<rparr> w))
              = Some 1870)
       \<and> (position (settings w) = ''bottom'' \<longrightarrow>
            root_geometry (fst (apply_visual_settings
                \<lparr>winfo_screenwidth = 1920, winfo_screenheight = 1080, winfo_width = ww\<rparr> w))
              = tk_geometry \<lparr>geo_x = 0, geo_y = 790, geo_width = 1920, geo_height = 250\<rparr>
          \<and> wrap_length (fst (apply_visual_settings
                \<lparr>winfo_screenwidth = 1920, winfo_screenheight = 1080, winfo_width = ww\<rparr> w))
              = Some 1870)
       \<and> (position (settings w) = ''top'' \<or> position (settings w) = ''bottom'' \<longrightarrow>
            wrap_length (fst (apply_visual_settings scr w)) = Some (winfo_screenwidth scr - 50)
          \<and> snd (apply_visual_settings scr w) = Returned)"
  using assms
  by (simp add: apply_visual_settings_def Let_def wrap_length_def tk_geometry_def
      format_int_examples config_label_def config_history_labels_zip)

theorem C5_docked_layout_witness:
  "root_geometry (fst (apply_visual_settings
       \<lparr>winfo_screenwidth = 1920, winfo_screenheight = 1080, winfo_width = 1\<rparr>
       (blank_window\<lparr>settings := default_settings\<lparr>position := ''top''\<rparr>,
                     color_cache := replicate MAX_HISTORY ''#FFFFFF''\<rparr>)))
     = ''1920x250+0+0''
   \<and> wrap_length (fst (apply_visual_settings
       \<lparr>winfo_screenwidth = 1920, winfo_screenheight = 1080, winfo_width = 1\<rparr>
       (blank_window\<lparr>settings := default_settings\<lparr>position := ''top''\<rparr>,
                     color_cache := replicate MAX_HISTORY ''#FFFFFF''\<rparr>)))
     = Some 1870
   \<and> root_geometry (fst (apply_visual_settings
       \<lparr>winfo_screenwidth = 1920, winfo_screenheight = 1080, winfo_width = 1\<rparr>
       (blank_window\<lparr>settings := default_settings\<lparr>position := ''bottom''\<rparr>,
                     color_cache := replicate MAX_HISTORY ''#FFFFFF''\<rparr>)))
     = ''1920x250+0+790''"
  using C5_docked_layout [of "blank_window\<lparr>settings := default_settings\<lparr>position := ''top''\<rparr>,
                     color_cache := replicate MAX_HISTORY ''#FFFFFF''\<rparr>" 1
               "\<lparr>winfo_screenwidth = 1920, winfo_screenheight = 1080, winfo_width = 1\<rparr>"]
        C5_docked_layout [of "blank_window\<lparr>settings := default_settings\<lparr>position := ''bottom''\<rparr>,
                     color_cache := replicate MAX_HISTORY ''#FFFFFF''\<rparr>" 1
               "\<lparr>winfo_screenwidth = 1920, winfo_screenheight = 1080, winfo_width = 1\<rparr>"]
  by (simp add: blank_window_def default_settings_def MAX_HISTORY_def tk_geometry_def
      format_int_examples)

section \<open>Applying settings twice\<close>

lemma update_color_cache_settings: "settings (fst (update_color_cache w)) = settings w"
  by (simp add: update_color_cache_def Let_def split: option.splits)

lemma update_color_cache_shape:
  "update_color_cache w =
     (w\<lparr>color_cache := color_cache (fst (update_color_cache w))\<rparr>, snd (update_color_cache w))"
  by (simp add: update_color_cache_def Let_def split: option.splits)

lemma update_color_cache_cong:
  "settings w = settings w' \<Longrightarrow>
     color_cache (fst (update_color_cache w)) = color_cache (fst (update_color_cache w'))
     \<and> snd (update_color_cache w) = snd (update_color_cache w')"
  by (simp add: update_color_cache_def Let_def split: option.splits)

lemma apply_visual_settings_settings: "settings (fst (apply_visual_settings scr w)) = settings w"
  by (simp add: apply_visual_settings_def Let_def split: prod.splits outcome.splits)

lemma apply_visual_settings_color_cache:
  "color_cache (fst (apply_visual_settings scr w)) = color_cache w"
  by (simp add: apply_visual_settings_def Let_def split: prod.splits outcome.splits)

lemma config_label_again:
  "wl' = None \<or> wl' = wl \<Longrightarrow> config_label f c wl' (config_label f c wl l) = config_label f c wl l"
  by (auto simp add: config_label_def split: option.splits)

lemma config_history_labels_again:
  "wl' = None \<or> wl' = wl \<Longrightarrow>
     config_history_labels f wl' cs (fst (config_history_labels f wl cs ls))
       = config_history_labels f wl cs ls"
  by (induction f wl cs ls rule: config_history_labels.induct)
     (simp_all add: case_prod_unfold Let_def config_label_again)

lemma config_history_labels_snd:
  "snd (config_history_labels f wl cs ls) = snd (config_history_labels f' wl' cs ls)"
  by (induction f wl cs ls rule: config_history_labels.induct)
     (simp_all add: case_prod_unfold Let_def)

lemma config_history_labels_outcome:
  "snd (config_history_labels f wl cs ls) =
     (if length ls \<le> length cs then Returned else Raised IndexError)"
  by (induction f wl cs ls rule: config_history_labels.induct)
     (simp_all add: case_prod_unfold Let_def)

lemma config_history_labels_length:
  "length (fst (config_history_labels f wl cs ls)) = length ls"
  by (induction f wl cs ls rule: config_history_labels.induct)
     (simp_all add: case_prod_unfold Let_def)

lemmas config_again =
  config_label_again [of None, simplified] config_label_again [of wl wl for wl, simplified]
  config_history_labels_again [of None, simplified]
  config_history_labels_again [of wl wl for wl, simplified]

lemma apply_visual_settings_idem:
  "apply_visual_settings scr (fst (apply_visual_settings scr w)) = apply_visual_settings scr w"
proof (cases "length (history_labels w) \<le> length (color_cache w)")
  case True
  then show ?thesis
    by (simp add: apply_visual_settings_def Let_def case_prod_unfold
        config_history_labels_outcome config_history_labels_length config_again)
next
  case False
  then show ?thesis
    by (simp add: apply_visual_settings_def Let_def case_prod_unfold
        config_history_labels_outcome config_history_labels_length config_again)
qed

text \<open>
  Claim C7: applying the same settings a second time, with the same screen and window
  width, gives the window of the first application and the same outcome: the same colour
  table, geometry, labels and wrap length.
\<close>

theorem C7_settings_idempotent:
  "on_settings_changed scr s (fst (on_settings_changed scr s w)) = on_settings_changed scr s w"
proof -
  let ?w' = "w\<lparr>settings := s\<rparr>"
  let ?w1 = "fst (update_color_cache ?w')"
  have s1: "settings ?w1 = s"
    by (simp add: update_color_cache_settings)
  show ?thesis
  proof (cases "snd (update_color_cache ?w')")
    case (Raised e)
    then have first: "on_settings_changed scr s w = (?w1, Raised e)"
      by (simp add: on_settings_changed_def case_prod_unfold)
    have "?w1\<lparr>settings := s\<rparr> = ?w1"
      using s1 by simp
    moreover have "update_color_cache ?w1 = (?w1, Raised e)"
      using update_color_cache_shape [of ?w1] update_color_cache_cong [of ?w1 ?w'] s1 Raised
      by simp
    ultimately have "on_settings_changed scr s ?w1 = (?w1, Raised e)"
      by (simp add: on_settings_changed_def)
    then show ?thesis
      using first by simp
  next
    case Returned
    let ?x = "fst (apply_visual_settings scr ?w1)"
    from Returned have first: "on_settings_changed scr s w = apply_visual_settings scr ?w1"
      by (simp add: on_settings_changed_def case_prod_unfold)
    have sx: "settings ?x = s"
      by (simp add: apply_visual_settings_settings s1)
    then have "?x\<lparr>settings := s\<rparr> = ?x"
      by simp
    moreover have "update_color_cache ?x = (?x, Returned)"
      using update_color_cache_shape [of ?x] update_color_cache_cong [of ?x ?w'] sx Returned
        apply_visual_settings_color_cache [of scr ?w1]
      by simp
    ultimately have "on_settings_changed scr s ?x = apply_visual_settings scr ?x"
      by (simp add: on_settings_changed_def)
    then show ?thesis
      using first by (simp add: apply_visual_settings_idem)
  qed
qed

section \<open>Stopping the transcriber\<close>

text \<open>
  Claim C8, as stated: \<open>stop()\<close> on a transcriber whose worker thread was never started
  returns without raising. It fails in the state that a failed \<open>start()\<close> leaves: the
  thread object is assigned, \<open>Thread.start()\<close> raised, and \<open>stop()\<close> calls \<open>join\<close> on the
  unstarted thread, which raises \<open>RuntimeError\<close>.
\<close>

theorem C8_stop_after_failed_start:
  "start False new_transcriber =
     (\<lparr>running = True, thread = Some \<lparr>daemon = True, started = False\<rparr>\<rparr>, Raised RuntimeError)
   \<and> stop False (fst (start False new_transcriber)) =
     (\<lparr>running = False, thread = Some \<lparr>daemon = True, started = False\<rparr>\<rparr>, [2],
      Raised RuntimeError)"
  by (simp add: start_def stop_def thread_join_def new_transcriber_def)

text \<open>
  Claim C8, amended: \<open>stop()\<close> on a transcriber that has no thread object (as after
  \<open>__init__\<close>, \<open>start()\<close> never called) returns without raising and makes no \<open>join\<close> call.
  In every state \<open>stop()\<close> sets \<open>running\<close> to false and calls \<open>join\<close>, once and with the
  timeout 2.0, exactly when a thread object exists; the call returns when that thread was
  started and \<open>stop()\<close> is not called on the worker thread itself, and raises
  \<open>RuntimeError\<close> otherwise.
\<close>

theorem C8_stop_outcome:
  "stop c new_transcriber = (new_transcriber, [], Returned)
   \<and> (thread t = None \<longrightarrow> stop c t = (t\<lparr>running := False\<rparr>, [], Returned))
   \<and> running (fst (stop c t)) = False
   \<and> thread (fst (stop c t)) = thread t
   \<and> fst (snd (stop c t)) = (case thread t of None \<Rightarrow> [] | Some th \<Rightarrow> [2])
   \<and> snd (snd (stop c t)) =
        (case thread t of
           None \<Rightarrow> Returned
         | Some th \<Rightarrow> if started th \<and> \<not> c then Returned else Raised RuntimeError)"
  by (simp add: stop_def thread_join_def new_transcriber_def split: option.splits)

theorem C8_stop_outcome_witness:
  "thread new_transcriber = None
   \<and> stop False new_transcriber = (new_transcriber\<lparr>running := False\<rparr>, [], Returned)
   \<and> stop False (fst (start True new_transcriber)) =
        (\<lparr>running = False, thread = Some \<lparr>daemon = True, started = True\<rparr>\<rparr>, [2], Returned)
   \<and> snd (snd (stop True (fst (start True new_transcriber)))) = Raised RuntimeError"
  using C8_stop_outcome [of False new_transcriber]
    C8_stop_outcome [of False "fst (start True new_transcriber)"]
    C8_stop_outcome [of True "fst (start True new_transcriber)"]
  by (simp add: start_def new_transcriber_def prod_eq_iff)

end
